theory Spec2Isabelle
  imports
    Main
    "HOL-Library.Char_ord"
    "HOL-Library.List_Lexorder"
    "HOL-Library.Product_Lexorder"
    "HOL-Library.Sublist"
    "HOL-Library.Multiset"
begin

section \<open>Source tree report generator (generate_source_tree.py)\<close>

text \<open>
  A shallow embedding of \<^verbatim>\<open>warchief_game/scripts/generate_source_tree.py\<close>.

  Modelling decisions:
  \<^item> A \<^verbatim>\<open>pathlib.Path\<close> is the list of its components below the filesystem root (POSIX);
    \<^verbatim>\<open>Path('/')\<close> is the empty list.
  \<^item> The filesystem below the scanned path is a finite tree \<open>fsobj\<close>: what \<^verbatim>\<open>is_file()\<close>,
    \<^verbatim>\<open>is_dir()\<close>, \<^verbatim>\<open>iterdir()\<close>, \<^verbatim>\<open>stat()\<close> and \<^verbatim>\<open>open()\<close> answer at each path. A directory
    carries its entries in the order \<^verbatim>\<open>iterdir()\<close> enumerates them. Symbolic-link cycles
    are outside the model.
  \<^item> File and directory names are ASCII strings: \<^verbatim>\<open>str.lower()\<close> is modelled on the letters
    \<open>A\<close> to \<open>Z\<close> only, and strings compare by their character codes as in Python.
  \<^item> \<^verbatim>\<open>Path.suffix\<close> is the one of Python 3.11 (\<^verbatim>\<open>rfind('.')\<close> with
    \<^verbatim>\<open>0 < i < len(name) - 1\<close>).
  \<^item> \<^verbatim>\<open>is_file()\<close> and \<^verbatim>\<open>is_dir()\<close> are those of Python 3.11: they call \<^verbatim>\<open>stat()\<close> and
    raise its \<^verbatim>\<open>OSError\<close> unless it says that the path does not exist or is a broken link.
  \<^item> Exceptions are values: \<^verbatim>\<open>OSError\<close> from \<^verbatim>\<open>iterdir()\<close>, \<^verbatim>\<open>is_file()\<close> and \<^verbatim>\<open>is_dir()\<close>, and
    \<^verbatim>\<open>ValueError\<close> from \<^verbatim>\<open>relative_to()\<close>, propagate out of \<open>build_tree\<close>, as nothing in
    the source catches them.
  \<^item> An icon is the Unicode code point of the one-character icon string.
\<close>

subsection \<open>Strings and paths\<close>

definition lower_char :: "char \<Rightarrow> char" where
  "lower_char c =
     (case map_of (zip ''ABCDEFGHIJKLMNOPQRSTUVWXYZ'' ''abcdefghijklmnopqrstuvwxyz'') c of
        Some d \<Rightarrow> d
      | None \<Rightarrow> c)"

definition lower :: "string \<Rightarrow> string" where
  "lower s = map lower_char s"

definition startswith :: "string \<Rightarrow> string \<Rightarrow> bool" where
  "startswith s p = (take (length p) s = p)"

text \<open>\<^verbatim>\<open>str.rfind(c)\<close>: the index of the last occurrence of \<open>c\<close>, or \<open>-1\<close>.\<close>

primrec rfind :: "string \<Rightarrow> char \<Rightarrow> int" where
  "rfind [] c = - 1"
| "rfind (x # xs) c =
     (let r = rfind xs c in
      if 0 \<le> r then r + 1 else if x = c then 0 else - 1)"

type_synonym path = "string list"

definition path_name :: "path \<Rightarrow> string" where
  "path_name p = (if p = [] then [] else last p)"

definition parent :: "path \<Rightarrow> path" where
  "parent p = butlast p"

text \<open>\<^verbatim>\<open>PurePath.suffix\<close> of a final component.\<close>

definition name_suffix :: "string \<Rightarrow> string" where
  "name_suffix name =
     (let i = rfind name (CHR ''.'') in
      if 0 < i \<and> i < int (length name) - 1 then drop (nat i) name else [])"

definition path_suffix :: "path \<Rightarrow> string" where
  "path_suffix p = name_suffix (path_name p)"

datatype error = OSError | ValueError

definition relative_to :: "path \<Rightarrow> path \<Rightarrow> error + path" where
  "relative_to p other = (if prefix other p then Inr (drop (length other) p) else Inl ValueError)"

text \<open>\<^verbatim>\<open>str()\<close> of a relative path: the components joined by \<open>/\<close>, and \<open>.\<close> for the empty path.\<close>

fun join_path :: "string list \<Rightarrow> string" where
  "join_path [] = []"
| "join_path [x] = x"
| "join_path (x # y # r) = x @ ''/'' @ join_path (y # r)"

definition path_str :: "path \<Rightarrow> string" where
  "path_str p = (if p = [] then ''.'' else join_path p)"

subsection \<open>The fixed tables\<close>

definition EXCLUDE_DIRS :: "string set" where
  "EXCLUDE_DIRS =
     {''.git'', ''.dart_tool'', ''.idea'', ''build'', ''node_modules'',
      ''__pycache__'', ''.venv'', ''venv'', ''.gradle'', ''.pub-cache'',
      ''coverage'', ''.flutter-plugins'', ''android'', ''ios'', ''linux'',
      ''macos'', ''windows'', ''ephemeral''}"

definition EXCLUDE_FILES :: "string set" where
  "EXCLUDE_FILES =
     {''.DS_Store'', ''Thumbs.db'', ''.flutter-plugins'',
      ''.flutter-plugins-dependencies'', ''pubspec.lock'',
      ''.packages'', ''.metadata''}"

definition LINE_COUNT_EXTENSIONS :: "string set" where
  "LINE_COUNT_EXTENSIONS =
     {''.dart'', ''.py'', ''.js'', ''.ts'', ''.html'', ''.css'', ''.scss'',
      ''.json'', ''.yaml'', ''.yml'', ''.md'', ''.txt'', ''.sh'', ''.xml'',
      ''.gradle'', ''.toml'', ''.mojo''}"

definition LINE_COUNT_FILES :: "string set" where
  "LINE_COUNT_FILES =
     {''Makefile'', ''Dockerfile'', ''CLAUDE.md'', ''README.md'',
      ''pubspec.yaml'', ''analysis_options.yaml''}"

text \<open>The literal set of compiled and binary extensions in \<^verbatim>\<open>should_exclude_file\<close>.\<close>

definition BINARY_EXTENSIONS :: "string set" where
  "BINARY_EXTENSIONS = {''.pyc'', ''.pyo'', ''.class'', ''.o'', ''.so'', ''.dylib'', ''.exe''}"

type_synonym icon = int

definition FILE_ICONS :: "string \<rightharpoonup> icon" where
  "FILE_ICONS = map_of
     [(''.dart'', 0x1F3AF), (''.py'', 0x1F40D), (''.mojo'', 0x1F525),
      (''.js'', 0x1F4C4), (''.ts'', 0x1F4C4), (''.html'', 0x1F310),
      (''.css'', 0x1F3A8), (''.scss'', 0x1F3A8), (''.json'', 0x1F4CB),
      (''.yaml'', 0x1F4CB), (''.yml'', 0x1F4CB), (''.md'', 0x1F4DD),
      (''.sh'', 0x2328), (''.xml'', 0x1F4C4), (''.svg'', 0x1F5BC),
      (''.png'', 0x1F5BC), (''.jpg'', 0x1F5BC), (''.gif'', 0x1F5BC)]"

subsection \<open>Exclusion, line counting and icons\<close>

definition should_exclude_dir :: "string \<Rightarrow> bool" where
  "should_exclude_dir name = (name \<in> EXCLUDE_DIRS \<or> startswith name ''.'')"

definition should_exclude_file :: "string \<Rightarrow> bool" where
  "should_exclude_file name =
     (if name \<in> EXCLUDE_FILES then True
      else let ext = lower (name_suffix name) in
        if ext \<in> BINARY_EXTENSIONS then True else False)"

text \<open>
  What opening and reading a file as text gives: the decoded text (decoding with
  \<^verbatim>\<open>errors='ignore'\<close> never fails), or an exception.
\<close>

datatype read_result = ReadFails | ReadOk string

text \<open>
  Iterating a file opened in text mode with universal newlines: each item is one line with
  its terminator (\<open>\n\<close>, \<open>\r\n\<close> or \<open>\r\<close>, given as \<open>\n\<close>), and a last piece without a
  terminator is an item as well. The first argument is the line read so far.
\<close>

fun text_lines :: "string \<Rightarrow> string \<Rightarrow> string list" where
  "text_lines cur [] = (if cur = [] then [] else [cur])"
| "text_lines cur (c # cs) =
     (if c = CHR 0x0A then (cur @ [CHR 0x0A]) # text_lines [] cs
      else if c = CHR 0x0D then
        (case cs of
           [] \<Rightarrow> [cur @ [CHR 0x0A]]
         | d # r \<Rightarrow>
             if d = CHR 0x0A then (cur @ [CHR 0x0A]) # text_lines [] r
             else (cur @ [CHR 0x0A]) # text_lines [] cs)
      else text_lines (cur @ [c]) cs)"

text \<open>\<^verbatim>\<open>sum(1 for _ in f)\<close>, and 0 on any exception.\<close>

fun count_lines :: "read_result \<Rightarrow> int" where
  "count_lines ReadFails = 0"
| "count_lines (ReadOk text) = (\<Sum>_\<leftarrow>text_lines [] text. 1)"

definition should_count_lines :: "path \<Rightarrow> bool" where
  "should_count_lines file_path =
     (if path_name file_path \<in> LINE_COUNT_FILES then True
      else lower (path_suffix file_path) \<in> LINE_COUNT_EXTENSIONS)"

definition get_file_icon :: "path \<Rightarrow> icon" where
  "get_file_icon file_path =
     (let ext = lower (path_suffix file_path) in
      case FILE_ICONS ext of Some i \<Rightarrow> i | None \<Rightarrow> 0x1F4C4)"

subsection \<open>The filesystem and the tree\<close>

text \<open>
  \<open>RegFile st rd\<close>: \<^verbatim>\<open>is_file()\<close> holds; \<open>st\<close> is \<^verbatim>\<open>stat().st_size\<close> or \<open>None\<close> when
  \<^verbatim>\<open>stat()\<close> raises \<^verbatim>\<open>OSError\<close>; \<open>rd\<close> is what reading gives.
  \<open>Directory es\<close>: \<^verbatim>\<open>is_dir()\<close> holds and \<^verbatim>\<open>iterdir()\<close> yields the named entries \<open>es\<close>.
  \<open>DirDenied\<close>: \<^verbatim>\<open>is_dir()\<close> holds and \<^verbatim>\<open>iterdir()\<close> raises \<^verbatim>\<open>OSError\<close>.
  \<open>StatDenied\<close>: \<^verbatim>\<open>stat()\<close> raises an \<^verbatim>\<open>OSError\<close> that \<^verbatim>\<open>is_file()\<close> and \<^verbatim>\<open>is_dir()\<close> raise
  in turn (permission denied on the directory holding the entry, an input/output error).
  \<open>Other\<close>: neither \<^verbatim>\<open>is_file()\<close> nor \<^verbatim>\<open>is_dir()\<close>, without an exception (a broken link, a
  socket, a device).
\<close>

datatype fsobj =
    RegFile "int option" read_result
  | Directory "(string \<times> fsobj) list"
  | DirDenied
  | StatDenied
  | Other

fun is_file :: "fsobj \<Rightarrow> error + bool" where
  "is_file (RegFile st rd) = Inr True"
| "is_file (Directory es) = Inr False"
| "is_file DirDenied = Inr False"
| "is_file StatDenied = Inl OSError"
| "is_file Other = Inr False"

fun is_dir :: "fsobj \<Rightarrow> error + bool" where
  "is_dir (RegFile st rd) = Inr False"
| "is_dir (Directory es) = Inr True"
| "is_dir DirDenied = Inr True"
| "is_dir StatDenied = Inl OSError"
| "is_dir Other = Inr False"

datatype node =
    FileNode (node_name: string) (node_path: string) (node_size: int)
      (node_extension: string) (node_icon: icon) (node_lines: "int option")
  | DirNode (node_name: string) (node_path: string) (node_children: "node list")

text \<open>The sort key \<^verbatim>\<open>lambda p: (p.is_file(), p.name.lower())\<close> of a directory entry.\<close>

definition entry_key :: "string \<times> fsobj \<Rightarrow> error + bool \<times> string" where
  "entry_key p =
     (case is_file (snd p) of
        Inl e \<Rightarrow> Inl e
      | Inr b \<Rightarrow> Inr (b, lower (fst p)))"

text \<open>
  \<^verbatim>\<open>sorted(xs, key=key)\<close>: the key of every item is computed first, in order, and the first
  exception ends the call; then the items are sorted by their keys, items with equal keys
  staying in their order.
\<close>

fun keyed :: "('a \<Rightarrow> error + 'k) \<Rightarrow> 'a list \<Rightarrow> error + ('k \<times> 'a) list" where
  "keyed key [] = Inr []"
| "keyed key (x # xs) =
     (case key x of
        Inl e \<Rightarrow> Inl e
      | Inr k \<Rightarrow>
          (case keyed key xs of
             Inl e \<Rightarrow> Inl e
           | Inr ks \<Rightarrow> Inr ((k, x) # ks)))"

definition sorted_py :: "('a \<Rightarrow> error + 'k::linorder) \<Rightarrow> 'a list \<Rightarrow> error + 'a list" where
  "sorted_py key xs =
     (case keyed key xs of
        Inl e \<Rightarrow> Inl e
      | Inr ks \<Rightarrow> Inr (map snd (sort_key fst ks)))"

text \<open>
  The loop over the sorted entries: the first exception ends it, and a child that gave
  \<open>None\<close> is not appended.
\<close>

fun collect :: "(error + node option) list \<Rightarrow> error + node list" where
  "collect [] = Inr []"
| "collect (r # rs) =
     (case r of
        Inl e \<Rightarrow> Inl e
      | Inr child_node \<Rightarrow>
          (case collect rs of
             Inl e \<Rightarrow> Inl e
           | Inr children \<Rightarrow>
               Inr (case child_node of None \<Rightarrow> children | Some n \<Rightarrow> n # children)))"

function build_tree :: "path \<Rightarrow> path \<Rightarrow> fsobj \<Rightarrow> error + node option" where
  "build_tree path root_path (RegFile st rd) =
     (let name = path_name path in
      case relative_to path (parent root_path) of
        Inl e \<Rightarrow> Inl e
      | Inr rel \<Rightarrow>
          if should_exclude_file name then Inr None
          else
            let size = (case st of Some s \<Rightarrow> s | None \<Rightarrow> 0) in
            Inr (Some (FileNode name (path_str rel) size (lower (path_suffix path))
              (get_file_icon path)
              (if should_count_lines path then Some (count_lines rd) else None))))"
| "build_tree path root_path (Directory es) =
     (let name = path_name path in
      case relative_to path (parent root_path) of
        Inl e \<Rightarrow> Inl e
      | Inr rel \<Rightarrow>
          if should_exclude_dir name then Inr None
          else
            (case sorted_py entry_key es of
               Inl e \<Rightarrow> Inl e
             | Inr entries \<Rightarrow>
                 (case collect (map (\<lambda>child.
                          build_tree (path @ [fst child]) root_path (snd child)) entries) of
                    Inl e \<Rightarrow> Inl e
                  | Inr children \<Rightarrow>
                      if children = [] then Inr None
                      else Inr (Some (DirNode name (path_str rel) children)))))"
| "build_tree path root_path DirDenied =
     (let name = path_name path in
      case relative_to path (parent root_path) of
        Inl e \<Rightarrow> Inl e
      | Inr rel \<Rightarrow> if should_exclude_dir name then Inr None else Inl OSError)"
| "build_tree path root_path StatDenied =
     (case relative_to path (parent root_path) of
        Inl e \<Rightarrow> Inl e
      | Inr rel \<Rightarrow> Inl OSError)"
| "build_tree path root_path Other =
     (case relative_to path (parent root_path) of
        Inl e \<Rightarrow> Inl e
      | Inr rel \<Rightarrow> Inr None)"
  by pat_completeness auto
termination
proof (relation "measure (\<lambda>(path, root_path, obj). size obj)")
  show "wf (measure (\<lambda>(path, root_path, obj). size obj))"
    by simp
next
  fix path root_path :: path and es entries :: "(string \<times> fsobj) list" and child
  assume "sorted_py entry_key es = Inr entries" and "child \<in> set entries"
  have "map snd ks = xs" if "keyed entry_key xs = Inr ks" for xs ks
    using that by (induction xs arbitrary: ks) (auto split: sum.splits)
  then have "set (map snd (sort_key fst ks)) = set xs" if "keyed entry_key xs = Inr ks" for xs ks
    using that by (metis set_map set_sort)
  with \<open>sorted_py entry_key es = Inr entries\<close> have "set entries = set es"
    by (auto simp: sorted_py_def split: sum.splits)
  with \<open>child \<in> set entries\<close> have "child \<in> set es"
    by simp
  then have "size (snd child) < Suc (size_list (size_prod (\<lambda>_. 0) size) es)"
    by (induction es) auto
  then show "((path @ [fst child], root_path, snd child), path, root_path, Directory es)
      \<in> measure (\<lambda>(path, root_path, obj). size obj)"
    by simp
qed

subsection \<open>Totals and the report\<close>

record totals =
  files :: int
  directories :: int
  lines :: int
  size_bytes :: int

text \<open>The inner function \<^verbatim>\<open>traverse\<close>, with the dictionary it updates passed through.\<close>

fun traverse :: "node \<Rightarrow> totals \<Rightarrow> totals" where
  "traverse (FileNode name p sz ext ic ln) t =
     t\<lparr>files := files t + 1,
       size_bytes := size_bytes t + sz,
       lines := lines t + (case ln of Some k \<Rightarrow> k | None \<Rightarrow> 0)\<rparr>"
| "traverse (DirNode name p children) t =
     fold traverse children (t\<lparr>directories := directories t + 1\<rparr>)"

definition calculate_totals :: "node \<Rightarrow> totals" where
  "calculate_totals tree =
     traverse tree \<lparr>files = 0, directories = 0, lines = 0, size_bytes = 0\<rparr>"

record report =
  generated_at :: string
  project_name :: string
  root :: string
  report_totals :: totals
  report_tree :: node

text \<open>
  \<^verbatim>\<open>main\<close> with \<^verbatim>\<open>--root\<close> given (already resolved) and the output file written without
  error: the exit status and the report. \<open>now\<close> is \<^verbatim>\<open>datetime.now().isoformat()\<close>.
\<close>

definition main :: "string \<Rightarrow> string option \<Rightarrow> path \<Rightarrow> fsobj \<Rightarrow> error + int \<times> report option" where
  "main now name_arg root_path fs =
     (let project_name =
        (case name_arg of
           Some n \<Rightarrow> if n = [] then path_name root_path else n
         | None \<Rightarrow> path_name root_path) in
      case build_tree root_path root_path fs of
        Inl e \<Rightarrow> Inl e
      | Inr None \<Rightarrow> Inr (1, None)
      | Inr (Some tree) \<Rightarrow>
          Inr (0, Some \<lparr>generated_at = now, project_name = project_name,
                 root = concat (map (\<lambda>c. ''/'' @ c) root_path),
                 report_totals = calculate_totals tree, report_tree = tree\<rparr>))"

subsection \<open>The emitted tree as the specification reads it\<close>

text \<open>All nodes of a tree, the tree's own node first.\<close>

fun nodes :: "node \<Rightarrow> node list" where
  "nodes (FileNode name p sz ext ic ln) = [FileNode name p sz ext ic ln]"
| "nodes (DirNode name p children) = DirNode name p children # concat (map nodes children)"

fun is_file_node :: "node \<Rightarrow> bool" where
  "is_file_node (FileNode name p sz ext ic ln) = True"
| "is_file_node (DirNode name p children) = False"

definition file_nodes :: "node \<Rightarrow> node list" where
  "file_nodes t = filter is_file_node (nodes t)"

definition directory_nodes :: "node \<Rightarrow> node list" where
  "directory_nodes t = filter (\<lambda>n. \<not> is_file_node n) (nodes t)"

definition lines_or_0 :: "node \<Rightarrow> int" where
  "lines_or_0 n = (case node_lines n of Some k \<Rightarrow> k | None \<Rightarrow> 0)"

definition tree_totals :: "node \<Rightarrow> totals" where
  "tree_totals t =
     \<lparr>files = int (length (file_nodes t)),
      directories = int (length (directory_nodes t)),
      lines = (\<Sum>n\<leftarrow>file_nodes t. lines_or_0 n),
      size_bytes = (\<Sum>n\<leftarrow>file_nodes t. node_size n)\<rparr>"

inductive reordered :: "node \<Rightarrow> node \<Rightarrow> bool" where
  same: "reordered n n"
| children: "list_all2 reordered cs ds \<Longrightarrow> mset ds = mset es \<Longrightarrow>
     reordered (DirNode name p cs) (DirNode name p es)"

text \<open>Sums of totals, used to state what \<open>traverse\<close> adds.\<close>

definition plus_totals :: "totals \<Rightarrow> totals \<Rightarrow> totals" where
  "plus_totals a b =
     \<lparr>files = files a + files b, directories = directories a + directories b,
      lines = lines a + lines b, size_bytes = size_bytes a + size_bytes b\<rparr>"

definition zero_totals :: totals where
  "zero_totals = \<lparr>files = 0, directories = 0, lines = 0, size_bytes = 0\<rparr>"

definition forest_totals :: "node list \<Rightarrow> totals" where
  "forest_totals cs = foldr (\<lambda>c. plus_totals (tree_totals c)) cs zero_totals"

subsection \<open>Example trees\<close>

definition ex_tree :: node where
  "ex_tree = DirNode ''proj'' ''proj''
     [DirNode ''src'' ''proj/src''
        [FileNode ''main.py'' ''proj/src/main.py'' 30 ''.py'' 0x1F40D (Some 3),
         FileNode ''logo.png'' ''proj/src/logo.png'' 100 ''.png'' 0x1F5BC None],
      FileNode ''README.md'' ''proj/README.md'' 12 ''.md'' 0x1F4DD (Some 1)]"

definition ex_tree' :: node where
  "ex_tree' = DirNode ''proj'' ''proj''
     [FileNode ''README.md'' ''proj/README.md'' 12 ''.md'' 0x1F4DD (Some 1),
      DirNode ''src'' ''proj/src''
        [FileNode ''logo.png'' ''proj/src/logo.png'' 100 ''.png'' 0x1F5BC None,
         FileNode ''main.py'' ''proj/src/main.py'' 30 ''.py'' 0x1F40D (Some 3)]]"

subsection \<open>Line terminators\<close>

text \<open>
  The number of line terminators of a text, \<open>\r\n\<close> being one terminator.
\<close>

fun line_terminators :: "string \<Rightarrow> nat" where
  "line_terminators [] = 0"
| "line_terminators (c # cs) =
     (if c = CHR 0x0A then 1 + line_terminators cs
      else if c = CHR 0x0D then
        (case cs of
           [] \<Rightarrow> 1
         | d # r \<Rightarrow> if d = CHR 0x0A then 1 + line_terminators r else 1 + line_terminators cs)
      else line_terminators cs)"

definition ends_unterminated :: "string \<Rightarrow> bool" where
  "ends_unterminated text = (text \<noteq> [] \<and> last text \<noteq> CHR 0x0A \<and> last text \<noteq> CHR 0x0D)"

subsection \<open>Policies and orderings as the specification words them\<close>

text \<open>
  The line-count policy on a file name: the name is in the fixed set of file names, or its
  extension is in the fixed set of countable extensions.
\<close>

definition line_count_policy :: "string \<Rightarrow> bool" where
  "line_count_policy name =
     (name \<in> LINE_COUNT_FILES \<or> lower (name_suffix name) \<in> LINE_COUNT_EXTENSIONS)"

text \<open>The sort key of an entry on which \<^verbatim>\<open>is_file()\<close> answers.\<close>

definition plain_key :: "string \<times> fsobj \<Rightarrow> bool \<times> string" where
  "plain_key p = (is_file (snd p) = Inr True, lower (fst p))"

text \<open>The sort key read off an emitted node.\<close>

definition node_key :: "node \<Rightarrow> bool \<times> string" where
  "node_key n = (is_file_node n, lower (node_name n))"

text \<open>
  Directory nodes before file nodes, and within each group the lower-cased names ascending.
\<close>

definition children_ordered :: "node list \<Rightarrow> bool" where
  "children_ordered cs =
     sorted_wrt (\<lambda>a b. (is_file_node a \<longrightarrow> is_file_node b) \<and>
        (is_file_node a = is_file_node b \<longrightarrow> lower (node_name a) \<le> lower (node_name b))) cs"

subsection \<open>An example scan\<close>

definition ex_fs :: fsobj where
  "ex_fs = Directory
     [(''README.md'', RegFile (Some 12) (ReadOk ''hello'')),
      (''logo.png'', RegFile (Some 100) (ReadOk [])),
      (''build'', Directory [(''out.o'', RegFile (Some 5) (ReadOk ''x''))]),
      (''.git'', Directory [(''config'', RegFile (Some 5) (ReadOk ''x''))]),
      (''empty'', Directory []),
      (''src'', Directory
         [(''main.py'', RegFile (Some 30) (ReadOk [CHR ''a'', CHR 0x0A, CHR ''b'', CHR 0x0A])),
          (''Lib'', Directory [(''util.py'', RegFile None ReadFails)])])]"

definition ex_out :: node where
  "ex_out = DirNode ''proj'' ''proj''
     [DirNode ''src'' ''proj/src''
        [DirNode ''Lib'' ''proj/src/Lib''
           [FileNode ''util.py'' ''proj/src/Lib/util.py'' 0 ''.py'' 0x1F40D (Some 0)],
         FileNode ''main.py'' ''proj/src/main.py'' 30 ''.py'' 0x1F40D (Some 2)],
      FileNode ''logo.png'' ''proj/logo.png'' 100 ''.png'' 0x1F5BC None,
      FileNode ''README.md'' ''proj/README.md'' 12 ''.md'' 0x1F4DD (Some 1)]"

subsection \<open>Content that is excluded altogether\<close>

text \<open>
  An object under which nothing is retained: an excluded file, an object that is neither
  file nor directory, an excluded directory, or a directory all of whose entries are such.
  An entry whose \<^verbatim>\<open>stat()\<close> raises is not such an object.
\<close>

function only_excluded :: "string \<Rightarrow> fsobj \<Rightarrow> bool" where
  "only_excluded name (RegFile st rd) = should_exclude_file name"
| "only_excluded name (Directory es) =
     (should_exclude_dir name \<or> list_all (\<lambda>e. only_excluded (fst e) (snd e)) es)"
| "only_excluded name DirDenied = should_exclude_dir name"
| "only_excluded name StatDenied = False"
| "only_excluded name Other = True"
  by pat_completeness auto
termination
proof (relation "measure (\<lambda>(name, obj). size obj)")
  show "wf (measure (\<lambda>(name, obj). size obj))"
    by simp
next
  fix name :: string and es :: "(string \<times> fsobj) list" and e
  assume "e \<in> set es"
  then have "size (snd e) < Suc (size_list (size_prod (\<lambda>_. 0) size) es)"
    by (induction es) auto
  then show "((fst e, snd e), name, Directory es) \<in> measure (\<lambda>(name, obj). size obj)"
    by (simp add: case_prod_beta)
qed

subsection \<open>Failures on single files\<close>

text \<open>
  The same filesystem where every \<^verbatim>\<open>stat()\<close> that fails reports size 0 instead, and every
  file that cannot be read is empty instead.
\<close>

function without_failures :: "fsobj \<Rightarrow> fsobj" where
  "without_failures (RegFile st rd) =
     RegFile (Some (case st of Some s \<Rightarrow> s | None \<Rightarrow> 0))
       (case rd of ReadFails \<Rightarrow> ReadOk [] | ReadOk content \<Rightarrow> ReadOk content)"
| "without_failures (Directory es) =
     Directory (map (\<lambda>e. (fst e, without_failures (snd e))) es)"
| "without_failures DirDenied = DirDenied"
| "without_failures StatDenied = StatDenied"
| "without_failures Other = Other"
  by pat_completeness auto
termination
proof (relation "measure size")
  show "wf (measure size)"
    by simp
next
  fix es :: "(string \<times> fsobj) list" and e
  assume "e \<in> set es"
  then have "size (snd e) < Suc (size_list (size_prod (\<lambda>_. 0) size) es)"
    by (induction es) auto
  then show "(snd e, Directory es) \<in> measure size"
    by simp
qed

text \<open>
  Every directory of the object can be listed, and \<^verbatim>\<open>is_file()\<close> raises on none of its
  entries.
\<close>

function all_accessible :: "fsobj \<Rightarrow> bool" where
  "all_accessible (RegFile st rd) = True"
| "all_accessible (Directory es) = list_all (\<lambda>e. all_accessible (snd e)) es"
| "all_accessible DirDenied = False"
| "all_accessible StatDenied = False"
| "all_accessible Other = True"
  by pat_completeness auto
termination
proof (relation "measure size")
  show "wf (measure size)"
    by simp
next
  fix es :: "(string \<times> fsobj) list" and e
  assume "e \<in> set es"
  then have "size (snd e) < Suc (size_list (size_prod (\<lambda>_. 0) size) es)"
    by (induction es) auto
  then show "(snd e, Directory es) \<in> measure size"
    by simp
qed

subsection \<open>The same directory tree, enumerated in another order\<close>

text \<open>
  Two objects hold the same files and directories when they are equal up to the order in
  which the entries of each directory are enumerated.
\<close>

inductive same_content :: "fsobj \<Rightarrow> fsobj \<Rightarrow> bool" where
  same: "same_content obj obj"
| listing: "list_all2 (\<lambda>a b. fst a = fst b \<and> same_content (snd a) (snd b)) es ds \<Longrightarrow>
     mset ds = mset es' \<Longrightarrow> same_content (Directory es) (Directory es')"

text \<open>
  No directory has two entries with the same sort key: two files, or two entries that are
  not files, whose names are equal when letter case is ignored.
\<close>

function distinct_keys :: "fsobj \<Rightarrow> bool" where
  "distinct_keys (RegFile st rd) = True"
| "distinct_keys (Directory es) =
     (distinct (map entry_key es) \<and> list_all (\<lambda>e. distinct_keys (snd e)) es)"
| "distinct_keys DirDenied = True"
| "distinct_keys StatDenied = True"
| "distinct_keys Other = True"
  by pat_completeness auto
termination
proof (relation "measure size")
  show "wf (measure size)"
    by simp
next
  fix es :: "(string \<times> fsobj) list" and e
  assume "e \<in> set es"
  then have "size (snd e) < Suc (size_list (size_prod (\<lambda>_. 0) size) es)"
    by (induction es) auto
  then show "(snd e, Directory es) \<in> measure size"
    by simp
qed

text \<open>The example scan with the listings of two directories in another order.\<close>

definition ex_fs' :: fsobj where
  "ex_fs' = Directory
     [(''src'', Directory
         [(''Lib'', Directory [(''util.py'', RegFile None ReadFails)]),
          (''main.py'', RegFile (Some 30) (ReadOk [CHR ''a'', CHR 0x0A, CHR ''b'', CHR 0x0A]))]),
      (''empty'', Directory []),
      (''.git'', Directory [(''config'', RegFile (Some 5) (ReadOk ''x''))]),
      (''build'', Directory [(''out.o'', RegFile (Some 5) (ReadOk ''x''))]),
      (''logo.png'', RegFile (Some 100) (ReadOk [])),
      (''README.md'', RegFile (Some 12) (ReadOk ''hello''))]"

text \<open>The report with another generation time.\<close>

definition at_time :: "string \<Rightarrow> error + int \<times> report option \<Rightarrow> error + int \<times> report option" where
  "at_time now r =
     (case r of
        Inr (status, Some rep) \<Rightarrow> Inr (status, Some (rep\<lparr>generated_at := now\<rparr>))
      | _ \<Rightarrow> r)"

text \<open>The children a list of results gives when none of them is an exception.\<close>

definition kept_nodes :: "(error + node option) list \<Rightarrow> node list" where
  "kept_nodes rs = concat (map (\<lambda>r. case r of Inr (Some n) \<Rightarrow> [n] | _ \<Rightarrow> []) rs)"

text \<open>Two results that are equal up to the order of children in the trees.\<close>

fun same_result :: "error + node option \<Rightarrow> error + node option \<Rightarrow> bool" where
  "same_result (Inl e) r = (r = Inl e)"
| "same_result (Inr None) r = (r = Inr None)"
| "same_result (Inr (Some t)) (Inr (Some t')) = reordered t t'"
| "same_result (Inr (Some t)) r = False"

section \<open>Properties\<close>

subsection \<open>Sorting the entries\<close>

lemma keyed_plain:
  "(\<And>x. x \<in> set xs \<Longrightarrow> key x = Inr (k x)) \<Longrightarrow> keyed key xs = Inr (map (\<lambda>x. (k x, x)) xs)"
  by (induction xs) simp_all

lemma keyed_Inl: "keyed key xs = Inl e \<Longrightarrow> \<exists>x\<in>set xs. key x = Inl e"
  by (induction xs) (auto split: sum.splits)

lemma keyed_Inr: "keyed key xs = Inr ks \<Longrightarrow> x \<in> set xs \<Longrightarrow> \<exists>k. key x = Inr k"
  by (induction xs arbitrary: ks) (auto split: sum.splits)

lemma insort_key_decorated:
  "insort_key fst (k x, x) (map (\<lambda>x. (k x, x)) ys) = map (\<lambda>x. (k x, x)) (insort_key k x ys)"
  by (induction ys) simp_all

lemma sort_key_decorated:
  "map snd (sort_key fst (map (\<lambda>x. (k x, x)) xs)) = sort_key k xs"
proof -
  have "sort_key fst (map (\<lambda>x. (k x, x)) xs) = map (\<lambda>x. (k x, x)) (sort_key k xs)"
    by (induction xs) (simp_all add: insort_key_decorated)
  then show ?thesis
    by (simp add: comp_def)
qed

lemma entry_key_plain: "snd p \<noteq> StatDenied \<Longrightarrow> entry_key p = Inr (plain_key p)"
  by (cases "snd p") (simp_all add: entry_key_def plain_key_def)

lemma entry_key_raises: "entry_key p = Inl e \<longleftrightarrow> snd p = StatDenied \<and> e = OSError"
  by (cases "snd p") (auto simp: entry_key_def)

lemma sorted_py_entry_key:
  "sorted_py entry_key es =
     (if StatDenied \<in> snd ` set es then Inl OSError else Inr (sort_key plain_key es))"
proof (cases "StatDenied \<in> snd ` set es")
  case True
  then obtain p where p: "p \<in> set es" "entry_key p = Inl OSError"
    by (auto simp: entry_key_raises)
  have "keyed entry_key es = Inl OSError"
  proof (cases "keyed entry_key es")
    case (Inl e)
    with keyed_Inl [OF Inl] show ?thesis
      by (auto simp: entry_key_raises)
  next
    case (Inr ks)
    from keyed_Inr [OF Inr p(1)] p(2) show ?thesis
      by simp
  qed
  with True show ?thesis
    by (simp add: sorted_py_def)
next
  case False
  then have "keyed entry_key es = Inr (map (\<lambda>p. (plain_key p, p)) es)"
    by (intro keyed_plain entry_key_plain) force
  with False show ?thesis
    by (simp add: sorted_py_def sort_key_decorated)
qed

text \<open>
  The equation of \<open>build_tree\<close> for a directory with the sorting worked out: \<^verbatim>\<open>sorted\<close>
  raises when \<^verbatim>\<open>is_file()\<close> raises on an entry, and sorts by the keys otherwise.
\<close>

lemma build_tree_Directory:
  "build_tree path root_path (Directory es) =
     (let name = path_name path in
      case relative_to path (parent root_path) of
        Inl e \<Rightarrow> Inl e
      | Inr rel \<Rightarrow>
          if should_exclude_dir name then Inr None
          else if StatDenied \<in> snd ` set es then Inl OSError
          else
            (case collect (map (\<lambda>child. build_tree (path @ [fst child]) root_path (snd child))
                     (sort_key plain_key es)) of
               Inl e \<Rightarrow> Inl e
             | Inr children \<Rightarrow>
                 if children = [] then Inr None
                 else Inr (Some (DirNode name (path_str rel) children))))"
  by (simp add: sorted_py_entry_key Let_def cong: sum.case_cong if_cong)

declare build_tree.simps(2) [simp del]

declare build_tree_Directory [simp]

text \<open>Induction over the object, with the hypothesis for every entry of a directory.\<close>

lemma build_tree_cases_induct:
  assumes "\<And>path root_path st rd. P path root_path (RegFile st rd)"
    and "\<And>path root_path es.
        (\<And>x xa child. x = path_name path \<Longrightarrow> relative_to path (parent root_path) = Inr xa \<Longrightarrow>
           \<not> should_exclude_dir x \<Longrightarrow> child \<in> set (sort_key plain_key es) \<Longrightarrow>
           P (path @ [fst child]) root_path (snd child)) \<Longrightarrow>
        P path root_path (Directory es)"
    and "\<And>path root_path. P path root_path DirDenied"
    and "\<And>path root_path. P path root_path StatDenied"
    and "\<And>path root_path. P path root_path Other"
  shows "P path root_path obj"
proof (induction obj arbitrary: path)
  case (Directory es)
  show ?case
  proof (rule assms(2))
    fix child assume "child \<in> set (sort_key plain_key es)"
    then have "child \<in> set es" by simp
    moreover have "snd child \<in> Basic_BNFs.snds child"
      by (cases child) simp
    ultimately show "P (path @ [fst child]) root_path (snd child)"
      by (rule Directory)
  qed
qed (rule assms)+

subsection \<open>Totals\<close>

lemma plus_totals_zero: "plus_totals t zero_totals = t" "plus_totals zero_totals t = t"
  by (simp_all add: plus_totals_def zero_totals_def)

lemma plus_totals_assoc: "plus_totals (plus_totals a b) c = plus_totals a (plus_totals b c)"
  by (simp add: plus_totals_def)

lemma forest_totals_simps:
  "forest_totals [] = zero_totals"
  "forest_totals (c # cs) = plus_totals (tree_totals c) (forest_totals cs)"
  by (simp_all add: forest_totals_def)

lemma tree_totals_file:
  "tree_totals (FileNode name p sz ext ic ln) =
     \<lparr>files = 1, directories = 0, lines = (case ln of Some k \<Rightarrow> k | None \<Rightarrow> 0), size_bytes = sz\<rparr>"
  by (simp add: tree_totals_def file_nodes_def directory_nodes_def lines_or_0_def)

lemma tree_totals_dir:
  "tree_totals (DirNode name p cs) =
     plus_totals \<lparr>files = 0, directories = 1, lines = 0, size_bytes = 0\<rparr> (forest_totals cs)"
proof -
  have "length (filter is_file_node (concat (map nodes cs))) = nat (files (forest_totals cs))
      \<and> 0 \<le> files (forest_totals cs)
      \<and> length (filter (\<lambda>n. \<not> is_file_node n) (concat (map nodes cs))) = nat (directories (forest_totals cs))
      \<and> 0 \<le> directories (forest_totals cs)
      \<and> (\<Sum>n\<leftarrow>filter is_file_node (concat (map nodes cs)). lines_or_0 n) = lines (forest_totals cs)
      \<and> (\<Sum>n\<leftarrow>filter is_file_node (concat (map nodes cs)). node_size n) = size_bytes (forest_totals cs)"
    by (induction cs)
      (simp_all add: forest_totals_simps zero_totals_def plus_totals_def tree_totals_def
        file_nodes_def directory_nodes_def nat_add_distrib)
  then show ?thesis
    by (simp add: tree_totals_def file_nodes_def directory_nodes_def plus_totals_def)
qed

lemma traverse_plus: "traverse n t = plus_totals t (tree_totals n)"
proof (induction n t rule: traverse.induct)
  case (1 name p sz ext ic ln t)
  show ?case
    by (simp add: tree_totals_file plus_totals_def)
next
  case (2 name p children t)
  have "fold traverse cs u = plus_totals u (forest_totals cs)"
    if "set cs \<subseteq> set children" for cs u
    using that
  proof (induction cs arbitrary: u)
    case Nil
    show ?case by (simp add: forest_totals_simps plus_totals_zero)
  next
    case (Cons c cs)
    then show ?case
      by (simp add: "2.IH" forest_totals_simps plus_totals_assoc)
  qed
  then show ?case
    by (simp add: tree_totals_dir plus_totals_def)
qed

lemma calculate_totals_eq: "calculate_totals t = tree_totals t"
  by (simp add: calculate_totals_def traverse_plus plus_totals_def tree_totals_def)

lemma forest_totals_list_all2:
  "list_all2 (\<lambda>a b. tree_totals a = tree_totals b) cs ds \<Longrightarrow> forest_totals cs = forest_totals ds"
  by (induction rule: list_all2_induct) (simp_all add: forest_totals_simps)

lemma forest_totals_mset: "forest_totals cs = 
  \<lparr>files = sum_mset (image_mset (\<lambda>c. files (tree_totals c)) (mset cs)),
   directories = sum_mset (image_mset (\<lambda>c. directories (tree_totals c)) (mset cs)),
   lines = sum_mset (image_mset (\<lambda>c. lines (tree_totals c)) (mset cs)),
   size_bytes = sum_mset (image_mset (\<lambda>c. size_bytes (tree_totals c)) (mset cs))\<rparr>"
  by (induction cs) (simp_all add: forest_totals_simps zero_totals_def plus_totals_def)

lemma reordered_tree_totals: "reordered a b \<Longrightarrow> tree_totals a = tree_totals b"
proof (induction rule: reordered.induct)
  case (same n)
  show ?case by simp
next
  case (children cs ds es name p)
  from children(1) have "list_all2 (\<lambda>a b. tree_totals a = tree_totals b) cs ds"
    by (rule list_all2_mono) simp
  then have "forest_totals cs = forest_totals ds"
    by (rule forest_totals_list_all2)
  also have "\<dots> = forest_totals es"
    using children(2) by (simp add: forest_totals_mset)
  finally show ?case
    by (simp add: tree_totals_dir)
qed

text \<open>
  C1. The totals of a tree are the number of its file nodes, the number of its directory
  nodes, and the sums of the sizes and of the line counts of its file nodes, a file node
  without a line count adding 0. They do not depend on the order of the children: a tree
  whose children lists are permuted, at any depth, has the same totals.
\<close>

theorem calculate_totals_sums:
  "calculate_totals t = tree_totals t \<and>
   (reordered t t' \<longrightarrow> calculate_totals t' = calculate_totals t)"
  using reordered_tree_totals [of t t'] by (simp add: calculate_totals_eq)

lemma ex_reordered: "reordered ex_tree ex_tree'"
  unfolding ex_tree_def ex_tree'_def
  apply (rule reordered.children[where ds = "[DirNode ''src'' ''proj/src''
        [FileNode ''logo.png'' ''proj/src/logo.png'' 100 ''.png'' 0x1F5BC None,
         FileNode ''main.py'' ''proj/src/main.py'' 30 ''.py'' 0x1F40D (Some 3)], FileNode ''README.md'' ''proj/README.md'' 12 ''.md'' 0x1F4DD (Some 1)]"])
   apply (simp)
   apply (rule conjI)
    apply (rule reordered.children[where ds = "[FileNode ''main.py'' ''proj/src/main.py'' 30 ''.py'' 0x1F40D (Some 3),
         FileNode ''logo.png'' ''proj/src/logo.png'' 100 ''.png'' 0x1F5BC None]"])
     apply (simp add: reordered.same)
    apply simp
   apply (rule reordered.same)
  apply simp
  done

theorem calculate_totals_sums_witness:
  "reordered ex_tree ex_tree' \<and>
   calculate_totals ex_tree = \<lparr>files = 3, directories = 2, lines = 4, size_bytes = 142\<rparr> \<and>
   calculate_totals ex_tree' = calculate_totals ex_tree"
  using calculate_totals_sums [of ex_tree ex_tree'] ex_reordered
  by (simp add: tree_totals_def file_nodes_def directory_nodes_def lines_or_0_def ex_tree_def)

subsection \<open>Counting lines\<close>

lemma length_text_lines:
  "length (text_lines cur text) =
     line_terminators text +
     (if (if text = [] then cur \<noteq> [] else ends_unterminated text) then 1 else 0)"
  by (induction cur "text" rule: text_lines.induct)
    (auto simp: ends_unterminated_def split: list.splits)

lemma count_lines_ReadOk:
  "count_lines (ReadOk text) =
     int (line_terminators text) + (if ends_unterminated text then 1 else 0)"
proof -
  have "count_lines (ReadOk text) = int (length (text_lines [] text))"
    by (simp add: sum_list_triv)
  then show ?thesis
    by (simp add: length_text_lines ends_unterminated_def)
qed

lemma relative_to_Inr: "relative_to p other = Inr rel \<Longrightarrow> rel = drop (length other) p \<and> prefix other p"
  by (auto simp: relative_to_def split: if_splits)

text \<open>
  C5, as amended. For a file matching the line-count policy whose content can be read, the
  \<open>lines\<close> field is the number of line terminators of the decoded content, plus one when
  the content is not empty and does not end with a line terminator: the last piece without a
  terminator is counted as a line.
\<close>

theorem lines_field_counts_lines:
  assumes "should_count_lines path"
    and "build_tree path root_path (RegFile st (ReadOk text)) = Inr (Some n)"
  shows "node_lines n =
     Some (int (line_terminators text) + (if ends_unterminated text then 1 else 0))"
  using assms
  by (auto simp: count_lines_ReadOk Let_def simp del: count_lines.simps split: sum.splits if_splits)

theorem lines_field_counts_lines_witness:
  "should_count_lines [''proj'', ''a.py''] \<and>
   build_tree [''proj'', ''a.py''] [''proj''] (RegFile (Some 4) (ReadOk [CHR ''a'', CHR 0x0D, CHR 0x0A, CHR ''b''])) =
     Inr (Some (FileNode ''a.py'' ''proj/a.py'' 4 ''.py'' 0x1F40D (Some 2))) \<and>
   line_terminators [CHR ''a'', CHR 0x0D, CHR 0x0A, CHR ''b''] = 1 \<and>
   ends_unterminated [CHR ''a'', CHR 0x0D, CHR 0x0A, CHR ''b'']"
proof -
  have c: "should_count_lines [''proj'', ''a.py'']"
    by (simp add: should_count_lines_def path_name_def path_suffix_def name_suffix_def
        lower_def lower_char_def LINE_COUNT_FILES_def LINE_COUNT_EXTENSIONS_def)
  have b: "build_tree [''proj'', ''a.py''] [''proj'']
      (RegFile (Some 4) (ReadOk [CHR ''a'', CHR 0x0D, CHR 0x0A, CHR ''b''])) =
     Inr (Some (FileNode ''a.py'' ''proj/a.py'' 4 ''.py'' 0x1F40D (Some 2)))"
    by (simp add: Let_def relative_to_def parent_def path_name_def should_exclude_file_def
      EXCLUDE_FILES_def name_suffix_def lower_def lower_char_def BINARY_EXTENSIONS_def
      path_str_def path_suffix_def get_file_icon_def FILE_ICONS_def should_count_lines_def
      LINE_COUNT_FILES_def LINE_COUNT_EXTENSIONS_def)
  from lines_field_counts_lines [OF c b] c b show ?thesis
    by (simp add: ends_unterminated_def)
qed

text \<open>
  C5 as stated fails: the content \<open>a\nb\<close> has one line terminator, and the \<open>lines\<close>
  field of its node is 2.
\<close>

theorem lines_not_terminators_counterexample:
  "build_tree [''proj'', ''a.py''] [''proj''] (RegFile (Some 3) (ReadOk [CHR ''a'', CHR 0x0A, CHR ''b''])) =
     Inr (Some (FileNode ''a.py'' ''proj/a.py'' 3 ''.py'' 0x1F40D (Some 2)))
   \<and> line_terminators [CHR ''a'', CHR 0x0A, CHR ''b''] = 1"
  by (simp add: Let_def relative_to_def parent_def path_name_def should_exclude_file_def
      EXCLUDE_FILES_def name_suffix_def lower_def lower_char_def BINARY_EXTENSIONS_def
      path_str_def path_suffix_def get_file_icon_def FILE_ICONS_def should_count_lines_def
      LINE_COUNT_FILES_def LINE_COUNT_EXTENSIONS_def)

subsection \<open>Lower case and suffixes\<close>




subsection \<open>The shape of what \<open>build_tree\<close> returns\<close>

lemma list_all2_right_witness:
  "list_all2 R xs ys \<Longrightarrow> y \<in> set ys \<Longrightarrow> \<exists>x\<in>set xs. R x y"
  by (induction rule: list_all2_induct) auto

lemma collect_map_Inr:
  "collect (map f xs) = Inr cs \<Longrightarrow>
     list_all2 (\<lambda>x c. f x = Inr (Some c)) (filter (\<lambda>x. f x \<noteq> Inr None) xs) cs \<and>
     (\<forall>x\<in>set xs. \<exists>r. f x = Inr r)"
proof (induction xs arbitrary: cs)
  case Nil
  then show ?case by simp
next
  case (Cons x xs)
  then show ?case
    by (auto split: sum.splits option.splits)
qed

lemma build_tree_Some_cases:
  assumes "build_tree path root_path obj = Inr (Some t)"
  obtains (File) rel st rd where "obj = RegFile st rd"
      "relative_to path (parent root_path) = Inr rel"
      "\<not> should_exclude_file (path_name path)"
      "t = FileNode (path_name path) (path_str rel) (case st of Some s \<Rightarrow> s | None \<Rightarrow> 0)
         (lower (path_suffix path)) (get_file_icon path)
         (if should_count_lines path then Some (count_lines rd) else None)"
  | (Dir) rel es children where "obj = Directory es"
      "relative_to path (parent root_path) = Inr rel"
      "\<not> should_exclude_dir (path_name path)"
      "collect (map (\<lambda>child. build_tree (path @ [fst child]) root_path (snd child))
         (sort_key plain_key es)) = Inr children"
      "children \<noteq> []"
      "t = DirNode (path_name path) (path_str rel) children"
  using assms
  by (cases obj) (auto simp: Let_def simp del: count_lines.simps split: sum.splits if_splits)

text \<open>
  A property of all nodes of an emitted tree is shown for the file node and for the
  directory node, given it for all nodes below. \<open>Q\<close> is what is known of the paths.
\<close>

lemma build_tree_all_nodes:
  assumes "build_tree path root_path obj = Inr (Some t)" and "Q path"
    and step: "\<And>p n. Q p \<Longrightarrow> Q (p @ [n])"
    and file_case: "\<And>p rel st rd. \<lbrakk>Q p; relative_to p (parent root_path) = Inr rel;
        \<not> should_exclude_file (path_name p)\<rbrakk> \<Longrightarrow>
        P (FileNode (path_name p) (path_str rel) (case st of Some s \<Rightarrow> s | None \<Rightarrow> 0)
          (lower (path_suffix p)) (get_file_icon p)
          (if should_count_lines p then Some (count_lines rd) else None))"
    and dir_case: "\<And>p rel es children. \<lbrakk>Q p; relative_to p (parent root_path) = Inr rel;
        \<not> should_exclude_dir (path_name p); children \<noteq> [];
        list_all2 (\<lambda>e c. build_tree (p @ [fst e]) root_path (snd e) = Inr (Some c))
          (filter (\<lambda>e. build_tree (p @ [fst e]) root_path (snd e) \<noteq> Inr None)
             (sort_key plain_key es)) children;
        \<forall>c\<in>set children. \<forall>n\<in>set (nodes c). P n\<rbrakk> \<Longrightarrow>
        P (DirNode (path_name p) (path_str rel) children)"
  shows "\<forall>n\<in>set (nodes t). P n"
  using assms
proof (induction path root_path obj arbitrary: t rule: build_tree_cases_induct)
  case (1 path root_path st rd)
  from "1.prems"(1) show ?case
  proof (cases rule: build_tree_Some_cases)
    case (File rel st' rd')
    have "P t"
      unfolding File(4) by (rule "1.prems"(4) [OF "1.prems"(2) File(2) File(3)])
    moreover have "nodes t = [t]"
      by (simp add: File(4))
    ultimately show ?thesis by simp
  qed simp
next
  case (2 path root_path es)
  from "2.prems"(1) show ?case
  proof (cases rule: build_tree_Some_cases)
    case (Dir rel es' children)
    then have es': "es' = es" by simp
    let ?f = "\<lambda>child. build_tree (path @ [fst child]) root_path (snd child)"
    from Dir(4) have coll: "collect (map ?f (sort_key plain_key es)) = Inr children"
      by (simp add: es')
    note kept = collect_map_Inr [OF coll, THEN conjunct1]
    have sub: "\<forall>c\<in>set children. \<forall>n\<in>set (nodes c). P n"
    proof
      fix c assume "c \<in> set children"
      with kept obtain e where e: "e \<in> set (sort_key plain_key es)" "?f e = Inr (Some c)"
        by (auto dest: list_all2_right_witness)
      show "\<forall>n\<in>set (nodes c). P n"
        by (rule "2.IH" [OF refl Dir(2) Dir(3) e(1) e(2) "2.prems"(3) [OF "2.prems"(2)]
              "2.prems"(3) "2.prems"(4) "2.prems"(5)])
    qed
    have "P (DirNode (path_name path) (path_str rel) children)"
      by (rule "2.prems"(5) [OF "2.prems"(2) Dir(2) Dir(3) Dir(5) kept sub])
    with sub show ?thesis
      by (simp add: Dir(6))
  qed simp
next
  case (3 path root_path)
  then show ?case
    by (simp add: Let_def split: sum.splits if_splits)
next
  case (4 path root_path)
  then show ?case
    by (simp split: sum.splits)
next
  case (5 path root_path)
  then show ?case
    by (simp split: sum.splits)
qed

subsection \<open>Evaluating the example\<close>

lemmas table_defs =
  EXCLUDE_DIRS_def EXCLUDE_FILES_def LINE_COUNT_EXTENSIONS_def LINE_COUNT_FILES_def
  BINARY_EXTENSIONS_def FILE_ICONS_def

lemmas eval_defs =
  Let_def relative_to_def parent_def path_name_def path_str_def path_suffix_def name_suffix_def
  lower_def lower_char_def startswith_def should_exclude_dir_def should_exclude_file_def
  should_count_lines_def get_file_icon_def plain_key_def table_defs

lemma build_tree_ex_fs: "build_tree [''home'', ''proj''] [''home'', ''proj''] ex_fs = Inr (Some ex_out)"
  by (simp add: ex_fs_def ex_out_def eval_defs)

subsection \<open>Line counts in the tree\<close>

lemma should_count_lines_policy: "should_count_lines p = line_count_policy (path_name p)"
  by (simp add: should_count_lines_def line_count_policy_def path_suffix_def)

lemma count_lines_nonneg: "0 \<le> count_lines rd"
  by (cases rd) (simp_all add: sum_list_triv)

lemma path_name_snoc: "path_name (p @ [n]) = n"
  by (simp add: path_name_def)

lemma build_tree_Some_shape:
  assumes "build_tree q root_path obj = Inr (Some c)"
  shows "node_name c = path_name q \<and> is_file obj = Inr (is_file_node c) \<and>
    prefix (parent root_path) q \<and> node_path c = path_str (drop (length (parent root_path)) q)"
  using assms
  by (cases rule: build_tree_Some_cases) (auto dest: relative_to_Inr)

text \<open>
  C2. Every file node of an emitted tree has a \<open>lines\<close> field exactly when its name
  matches the line-count policy; the field is then a non-negative integer, and otherwise it
  is absent.
\<close>

theorem lines_field_iff_policy:
  assumes "build_tree path root_path obj = Inr (Some t)"
  shows "\<forall>n\<in>set (file_nodes t).
     (case node_lines n of
        Some k \<Rightarrow> line_count_policy (node_name n) \<and> 0 \<le> k
      | None \<Rightarrow> \<not> line_count_policy (node_name n))"
proof -
  let ?P = "\<lambda>n. is_file_node n \<longrightarrow>
     (case node_lines n of
        Some k \<Rightarrow> line_count_policy (node_name n) \<and> 0 \<le> k
      | None \<Rightarrow> \<not> line_count_policy (node_name n))"
  have "\<forall>n\<in>set (nodes t). ?P n"
    by (rule build_tree_all_nodes [OF assms, where Q = "\<lambda>_. True"])
      (simp_all add: should_count_lines_policy count_lines_nonneg)
  then show ?thesis
    by (simp add: file_nodes_def)
qed

theorem lines_field_iff_policy_witness:
  "build_tree [''home'', ''proj''] [''home'', ''proj''] ex_fs = Inr (Some ex_out) \<and>
   file_nodes ex_out =
     [FileNode ''util.py'' ''proj/src/Lib/util.py'' 0 ''.py'' 0x1F40D (Some 0),
      FileNode ''main.py'' ''proj/src/main.py'' 30 ''.py'' 0x1F40D (Some 2),
      FileNode ''logo.png'' ''proj/logo.png'' 100 ''.png'' 0x1F5BC None,
      FileNode ''README.md'' ''proj/README.md'' 12 ''.md'' 0x1F4DD (Some 1)] \<and>
   line_count_policy ''util.py'' \<and> line_count_policy ''main.py'' \<and>
   \<not> line_count_policy ''logo.png'' \<and> line_count_policy ''README.md''"
  using lines_field_iff_policy [OF build_tree_ex_fs] build_tree_ex_fs
  by (simp add: file_nodes_def ex_out_def)

subsection \<open>Directories hold files\<close>

lemma file_nodes_child:
  "c \<in> set children \<Longrightarrow> set (file_nodes c) \<subseteq> set (file_nodes (DirNode name p children))"
  by (auto simp: file_nodes_def)

lemma self_in_nodes: "n \<in> set (nodes n)"
  by (cases n) simp_all

lemma build_tree_has_file:
  assumes "build_tree path root_path obj = Inr (Some t)"
  shows "\<forall>n\<in>set (nodes t). file_nodes n \<noteq> []"
proof (rule build_tree_all_nodes [OF assms, where Q = "\<lambda>_. True"])
  fix p :: path and rel es and children :: "node list"
  assume ne: "children \<noteq> []" and sub: "\<forall>c\<in>set children. \<forall>n\<in>set (nodes c). file_nodes n \<noteq> []"
  from ne obtain c where c: "c \<in> set children"
    by (cases children) auto
  with sub self_in_nodes have "set (file_nodes c) \<noteq> {}"
    by auto
  with file_nodes_child [OF c, of "path_name p" "path_str rel"]
  have "set (file_nodes (DirNode (path_name p) (path_str rel) children)) \<noteq> {}"
    by auto
  then show "file_nodes (DirNode (path_name p) (path_str rel) children) \<noteq> []"
    by auto
qed (simp_all add: file_nodes_def)

text \<open>
  C9. Every directory node of an emitted tree has a file node among its descendants, and
  the file total of an emitted tree is at least 1.
\<close>

theorem directories_contain_files:
  assumes "build_tree path root_path obj = Inr (Some t)"
  shows "(\<forall>n\<in>set (directory_nodes t). file_nodes n \<noteq> []) \<and> 1 \<le> files (calculate_totals t)"
proof -
  note all = build_tree_has_file [OF assms]
  from all self_in_nodes have "file_nodes t \<noteq> []"
    by blast
  then have "1 \<le> files (calculate_totals t)"
    by (cases "file_nodes t") (simp_all add: calculate_totals_eq tree_totals_def)
  with all show ?thesis
    by (simp add: directory_nodes_def)
qed

theorem directories_contain_files_witness:
  "build_tree [''home'', ''proj''] [''home'', ''proj''] ex_fs = Inr (Some ex_out) \<and>
   map node_name (directory_nodes ex_out) = [''proj'', ''src'', ''Lib''] \<and>
   map (\<lambda>n. length (file_nodes n)) (directory_nodes ex_out) = [4, 2, 1] \<and>
   1 \<le> files (calculate_totals ex_out)"
  using directories_contain_files [OF build_tree_ex_fs] build_tree_ex_fs
  by (simp add: directory_nodes_def file_nodes_def ex_out_def)

subsection \<open>Ordered children\<close>

lemma node_key_plain_key:
  assumes "build_tree (p @ [fst e]) root_path (snd e) = Inr (Some c)"
  shows "node_key c = plain_key e"
  using build_tree_Some_shape [OF assms]
  by (simp add: node_key_def plain_key_def path_name_snoc)

lemma children_ordered_sorted_key: "sorted (map node_key cs) \<Longrightarrow> children_ordered cs"
  unfolding children_ordered_def sorted_map
  by (erule sorted_wrt_mono_rel [rotated]) (auto simp: node_key_def less_eq_prod_def)

lemma sorted_kept_children:
  assumes "list_all2 (\<lambda>e c. build_tree (p @ [fst e]) root_path (snd e) = Inr (Some c))
     (filter F (sort_key plain_key es)) children"
  shows "children_ordered children"
proof -
  from assms have "list_all2 (\<lambda>e c. plain_key e = node_key c) (filter F (sort_key plain_key es)) children"
    by (rule list_all2_mono) (simp add: node_key_plain_key)
  then have "map plain_key (filter F (sort_key plain_key es)) = map node_key children"
    by (induction rule: list_all2_induct) simp_all
  moreover have "sorted (map plain_key (filter F (sort_key plain_key es)))"
    by (rule sorted_filter) (rule sorted_sort_key)
  ultimately show ?thesis
    by (simp add: children_ordered_sorted_key)
qed

text \<open>
  C4. In every directory node of an emitted tree, the directory nodes come before the file
  nodes, and within each of the two groups the names ascend when compared in lower case.
\<close>

theorem children_sorted_dirs_first:
  assumes "build_tree path root_path obj = Inr (Some t)"
  shows "\<forall>n\<in>set (directory_nodes t). children_ordered (node_children n)"
proof -
  have "\<forall>n\<in>set (nodes t). \<not> is_file_node n \<longrightarrow> children_ordered (node_children n)"
    by (rule build_tree_all_nodes [OF assms, where Q = "\<lambda>_. True"])
      (simp_all add: sorted_kept_children)
  then show ?thesis
    by (simp add: directory_nodes_def)
qed

theorem children_sorted_dirs_first_witness:
  "build_tree [''home'', ''proj''] [''home'', ''proj''] ex_fs = Inr (Some ex_out) \<and>
   map (\<lambda>n. map node_key (node_children n)) (directory_nodes ex_out) =
     [[(False, ''src''), (True, ''logo.png''), (True, ''readme.md'')],
      [(False, ''lib''), (True, ''main.py'')],
      [(True, ''util.py'')]]"
  using children_sorted_dirs_first [OF build_tree_ex_fs] build_tree_ex_fs
  by (simp add: directory_nodes_def ex_out_def node_key_def lower_def lower_char_def)

subsection \<open>Pruning\<close>

lemma collect_Inr_Nil: "collect rs = Inr [] \<longleftrightarrow> (\<forall>r\<in>set rs. r = Inr None)"
  by (induction rs) (auto split: sum.splits option.splits)

lemma relative_to_prefix:
  "prefix other p \<Longrightarrow> relative_to p other = Inr (drop (length other) p)"
  by (simp add: relative_to_def)

lemma prefix_snoc: "prefix a p \<Longrightarrow> prefix a (p @ [n])"
  by (rule prefix_prefix)

lemma build_tree_None_iff:
  "prefix (parent root_path) path \<Longrightarrow>
     build_tree path root_path obj = Inr None \<longleftrightarrow> only_excluded (path_name path) obj"
proof (induction path root_path obj rule: build_tree_cases_induct)
  case (1 path root_path st rd)
  then show ?case
    by (simp add: relative_to_prefix Let_def)
next
  case (2 path root_path es)
  note rel = relative_to_prefix [OF "2.prems"]
  show ?case
  proof (cases "should_exclude_dir (path_name path)")
    case True
    then show ?thesis by (simp add: rel Let_def)
  next
    case False
    show ?thesis
    proof (cases "StatDenied \<in> snd ` set es")
      case True
      then obtain e where "e \<in> set es" "\<not> only_excluded (fst e) (snd e)"
        by auto
      then have "\<not> list_all (\<lambda>e. only_excluded (fst e) (snd e)) es"
        by (auto simp: list_all_iff)
      with True False show ?thesis
        by (simp add: rel Let_def)
    next
      case stat: False
      let ?f = "\<lambda>child. build_tree (path @ [fst child]) root_path (snd child)"
      have "build_tree path root_path (Directory es) = Inr None
          \<longleftrightarrow> collect (map ?f (sort_key plain_key es)) = Inr []"
        using False stat by (auto simp: rel Let_def split: sum.splits)
      also have "\<dots> \<longleftrightarrow> (\<forall>e\<in>set es. ?f e = Inr None)"
        by (simp add: collect_Inr_Nil)
      also have "\<dots> \<longleftrightarrow> (\<forall>e\<in>set es. only_excluded (fst e) (snd e))"
      proof (rule ball_cong [OF refl])
        fix e assume "e \<in> set es"
        then have "e \<in> set (sort_key plain_key es)" by simp
        from "2.IH" [OF refl rel False this prefix_snoc [OF "2.prems"]]
        show "?f e = Inr None \<longleftrightarrow> only_excluded (fst e) (snd e)"
          by (simp add: path_name_snoc)
      qed
      finally show ?thesis
        using False by (simp add: list_all_iff)
    qed
  qed
next
  case (3 path root_path)
  then show ?case
    by (simp add: relative_to_prefix Let_def)
next
  case (4 path root_path)
  then show ?case
    by (simp add: relative_to_prefix)
next
  case (5 path root_path)
  then show ?case
    by (simp add: relative_to_prefix)
qed






subsection \<open>Stored paths\<close>

lemma drop_parent_append:
  "root_path \<noteq> [] \<Longrightarrow>
     drop (length (parent root_path)) (root_path @ sub) = path_name root_path # sub"
proof -
  assume "root_path \<noteq> []"
  then have "root_path = butlast root_path @ [last root_path]"
    by simp
  then have "drop (length (butlast root_path)) (root_path @ sub) =
      drop (length (butlast root_path)) (butlast root_path @ last root_path # sub)"
    by (metis append.assoc append_Cons append_Nil)
  with \<open>root_path \<noteq> []\<close> show ?thesis
    by (simp add: parent_def path_name_def)
qed

lemma prefix_join_path: "prefix x (join_path (x # xs))"
  by (cases xs) simp_all

lemma stored_path_of:
  assumes "prefix root_path q"
  shows "prefix (path_name root_path) (path_str (drop (length (parent root_path)) q)) \<and>
    (root_path \<noteq> [] \<longrightarrow>
       path_str (drop (length (parent root_path)) q) =
       join_path (path_name root_path # drop (length root_path) q))"
proof (cases "root_path = []")
  case True
  then show ?thesis by (simp add: path_name_def)
next
  case False
  from assms obtain sub where q: "q = root_path @ sub"
    by (auto simp: prefix_def)
  have "drop (length (parent root_path)) q = path_name root_path # sub"
    unfolding q by (rule drop_parent_append [OF False])
  moreover have "drop (length root_path) q = sub"
    by (simp add: q)
  ultimately show ?thesis
    by (simp add: path_str_def prefix_join_path)
qed

lemma build_tree_node_paths:
  assumes "build_tree path root_path obj = Inr (Some t)"
  shows "\<forall>n\<in>set (nodes t). \<exists>q. prefix path q \<and> node_name n = path_name q \<and>
     relative_to q (parent root_path) = Inr (drop (length (parent root_path)) q) \<and>
     node_path n = path_str (drop (length (parent root_path)) q)"
  by (rule build_tree_all_nodes [OF assms, where Q = "prefix path"])
    (auto dest!: relative_to_Inr simp: relative_to_prefix)

text \<open>
  C7. Below a path under the scan root, every node of an emitted tree stands for a path
  \<open>q\<close> under the scanned path: its name is the last component of \<open>q\<close> and its stored path
  is \<open>q\<close> made relative to the parent of the scan root. So the stored path starts with the
  name of the root directory, and, the scan root not being the filesystem root, its first
  component is that name.
\<close>

theorem stored_paths_relative_to_root_parent:
  assumes "prefix root_path path" and "build_tree path root_path obj = Inr (Some t)"
  shows "\<forall>n\<in>set (nodes t). \<exists>q. prefix path q \<and> node_name n = path_name q \<and>
     relative_to q (parent root_path) = Inr (drop (length (parent root_path)) q) \<and>
     node_path n = path_str (drop (length (parent root_path)) q) \<and>
     prefix (path_name root_path) (node_path n) \<and>
     (root_path \<noteq> [] \<longrightarrow>
        node_path n = join_path (path_name root_path # drop (length root_path) q))"
proof
  fix n assume "n \<in> set (nodes t)"
  with build_tree_node_paths [OF assms(2)] obtain q where q: "prefix path q"
      "node_name n = path_name q"
      "relative_to q (parent root_path) = Inr (drop (length (parent root_path)) q)"
      "node_path n = path_str (drop (length (parent root_path)) q)"
    by blast
  from assms(1) q(1) have "prefix root_path q"
    by (rule prefix_order.trans)
  from stored_path_of [OF this] q show "\<exists>q. prefix path q \<and> node_name n = path_name q \<and>
     relative_to q (parent root_path) = Inr (drop (length (parent root_path)) q) \<and>
     node_path n = path_str (drop (length (parent root_path)) q) \<and>
     prefix (path_name root_path) (node_path n) \<and>
     (root_path \<noteq> [] \<longrightarrow>
        node_path n = join_path (path_name root_path # drop (length root_path) q))"
    by auto
qed

theorem stored_paths_relative_to_root_parent_witness:
  "prefix [''home'', ''proj''] [''home'', ''proj''] \<and>
   build_tree [''home'', ''proj''] [''home'', ''proj''] ex_fs = Inr (Some ex_out) \<and>
   map node_path (nodes ex_out) =
     [''proj'', ''proj/src'', ''proj/src/Lib'', ''proj/src/Lib/util.py'', ''proj/src/main.py'',
      ''proj/logo.png'', ''proj/README.md''] \<and>
   path_name [''home'', ''proj''] = ''proj''"
  using stored_paths_relative_to_root_parent [OF prefix_order.refl build_tree_ex_fs]
    build_tree_ex_fs
  by (simp add: ex_out_def path_name_def)

subsection \<open>Failures on single files\<close>

lemma insort_key_map_same_key:
  assumes "\<And>x. k (g x) = k x"
  shows "insort_key k (g x) (map g ys) = map g (insort_key k x ys)"
  by (induction ys) (simp_all add: assms)

lemma sort_key_map_same_key:
  assumes "\<And>x. k (g x) = k x"
  shows "sort_key k (map g xs) = map g (sort_key k xs)"
  by (induction xs) (simp_all add: insort_key_map_same_key [of k g, OF assms])

lemma is_file_without_failures: "is_file (without_failures obj) = is_file obj"
  by (cases obj) simp_all

lemma without_failures_StatDenied: "without_failures obj = StatDenied \<longleftrightarrow> obj = StatDenied"
  by (cases obj) simp_all

lemma stat_denied_without_failures:
  "StatDenied \<in> snd ` set (map (\<lambda>e. (fst e, without_failures (snd e))) es) \<longleftrightarrow>
     StatDenied \<in> snd ` set es"
proof (induction es)
  case Nil
  show ?case by simp
next
  case (Cons e es)
  have "StatDenied = without_failures (snd e) \<longleftrightarrow> StatDenied = snd e"
    using without_failures_StatDenied [of "snd e"] by (simp add: eq_commute)
  with Cons show ?case
    by simp
qed

lemma build_tree_without_failures:
  "build_tree path root_path (without_failures obj) = build_tree path root_path obj"
proof (induction path root_path obj rule: build_tree_cases_induct)
  case (1 path root_path st rd)
  show ?case
    by (cases st; cases rd) (auto simp: Let_def split: sum.splits)
next
  case (2 path root_path es)
  let ?g = "\<lambda>e. (fst e, without_failures (snd e))"
  let ?f = "\<lambda>child. build_tree (path @ [fst child]) root_path (snd child)"
  have key: "plain_key (?g e) = plain_key e" for e
    by (simp add: plain_key_def is_file_without_failures)
  have sorted: "sort_key plain_key (map ?g es) = map ?g (sort_key plain_key es)"
    by (rule sort_key_map_same_key) (rule key)
  have stat: "StatDenied \<in> snd ` set (map ?g es) \<longleftrightarrow> StatDenied \<in> snd ` set es"
    by (rule stat_denied_without_failures)
  show ?case
  proof (cases "relative_to path (parent root_path)")
    case (Inl e)
    then show ?thesis by (simp add: Let_def)
  next
    case (Inr rel)
    show ?thesis
    proof (cases "should_exclude_dir (path_name path)")
      case True
      then show ?thesis by (simp add: Let_def Inr)
    next
      case False
      have "map ?f (map ?g (sort_key plain_key es)) = map ?f (sort_key plain_key es)"
        unfolding map_map
      proof (rule map_cong [OF refl])
        fix e assume "e \<in> set (sort_key plain_key es)"
        from "2.IH" [OF refl Inr False this] show "(?f \<circ> ?g) e = ?f e"
          by simp
      qed
      then have "collect (map ?f (sort_key plain_key (map ?g es))) =
          collect (map ?f (sort_key plain_key es))"
        unfolding sorted by (rule arg_cong)
      then show ?thesis
        unfolding without_failures.simps build_tree_Directory stat
        by (simp add: Let_def Inr False)
    qed
  qed
next
  case (3 path root_path)
  show ?case by simp
next
  case (4 path root_path)
  show ?case by simp
next
  case (5 path root_path)
  show ?case by simp
qed

lemma collect_no_error:
  "(\<forall>r\<in>set rs. \<exists>c. r = Inr c) \<Longrightarrow> \<exists>cs. collect rs = Inr cs"
  by (induction rs) (auto split: sum.splits)

lemma build_tree_listable:
  "prefix (parent root_path) path \<Longrightarrow> all_accessible obj \<Longrightarrow>
     \<exists>r. build_tree path root_path obj = Inr r"
proof (induction path root_path obj rule: build_tree_cases_induct)
  case (1 path root_path st rd)
  then show ?case
    by (simp add: relative_to_prefix Let_def)
next
  case (2 path root_path es)
  note rel = relative_to_prefix [OF "2.prems"(1)]
  show ?case
  proof (cases "should_exclude_dir (path_name path)")
    case True
    then show ?thesis by (simp add: rel Let_def)
  next
    case False
    let ?f = "\<lambda>child. build_tree (path @ [fst child]) root_path (snd child)"
    have "\<forall>r\<in>set (map ?f (sort_key plain_key es)). \<exists>c. r = Inr c"
    proof (clarsimp simp del: build_tree.simps)
      fix a b assume e: "(a, b) \<in> set es"
      then have "(a, b) \<in> set (sort_key plain_key es)" by simp
      moreover from e "2.prems"(2) have "all_accessible (snd (a, b))"
        by (auto simp: list_all_iff)
      ultimately show "\<exists>c. build_tree (path @ [a]) root_path b = Inr c"
        using "2.IH" [OF refl rel False _ prefix_snoc [OF "2.prems"(1)], of "(a, b)"]
        by simp
    qed
    then obtain cs where "collect (map ?f (sort_key plain_key es)) = Inr cs"
      using collect_no_error by blast
    moreover from "2.prems"(2) have "StatDenied \<notin> snd ` set es"
      by (auto simp: list_all_iff)
    ultimately show ?thesis
      by (simp add: rel Let_def False)
  qed
next
  case (3 path root_path)
  then show ?case by simp
next
  case (4 path root_path)
  then show ?case by simp
next
  case (5 path root_path)
  then show ?case
    by (simp add: relative_to_prefix)
qed

lemma prefix_parent_self: "prefix (parent p) p"
  by (simp add: parent_def prefixeq_butlast)

lemma main_listable:
  assumes "all_accessible obj" and "\<not> only_excluded (path_name root_path) obj"
  shows "\<exists>rep. main now name_arg root_path obj = Inr (0, Some rep)"
proof -
  from build_tree_listable [OF prefix_parent_self assms(1)]
  obtain r where r: "build_tree root_path root_path obj = Inr r"
    by blast
  with assms(2) build_tree_None_iff [OF prefix_parent_self, of root_path obj]
  obtain t where "r = Some t"
    by (cases r) auto
  with r show ?thesis
    by (simp add: main_def Let_def)
qed

text \<open>
  The failures the source catches. For a file that is not excluded, under a path below the
  parent of the scan root, a node is emitted whatever the \<^verbatim>\<open>stat()\<close> for the size and the
  reading give: size 0 and, where lines are counted, the line count 0. What \<open>build_tree\<close>
  returns is what it returns when these calls give size 0 and empty content instead. No
  exception leaves \<open>build_tree\<close> when every directory can be listed and \<^verbatim>\<open>is_file()\<close>
  raises on no entry, and then the exit status is 0 unless nothing is retained under the
  root.
\<close>

lemma caught_failures_degrade_to_zero:
  assumes "prefix (parent root_path) path"
  shows "(\<not> should_exclude_file (path_name path) \<longrightarrow>
       (\<exists>n. build_tree path root_path (RegFile st ReadFails) = Inr (Some n) \<and>
          node_lines n = (if should_count_lines path then Some 0 else None)) \<and>
       (\<exists>n. build_tree path root_path (RegFile None rd) = Inr (Some n) \<and> node_size n = 0)) \<and>
    build_tree path root_path (without_failures obj) = build_tree path root_path obj \<and>
    (all_accessible obj \<longrightarrow> (\<exists>r. build_tree path root_path obj = Inr r)) \<and>
    (all_accessible obj \<and> \<not> only_excluded (path_name root_path) obj \<longrightarrow>
       (\<exists>rep. main now name_arg root_path obj = Inr (0, Some rep)))"
  using build_tree_listable [OF assms] main_listable
  by (simp add: relative_to_prefix [OF assms] Let_def build_tree_without_failures)

text \<open>
  The failure the source does not catch: \<^verbatim>\<open>is_file()\<close> calls \<^verbatim>\<open>stat()\<close> outside any
  \<^verbatim>\<open>try\<close>, in the sort key of the listing and at the head of \<open>build_tree\<close>. A directory that
  is not excluded and holds an entry on which it raises makes \<open>build_tree\<close> raise, whatever
  else the directory holds.
\<close>

text \<open>
  The equations of \<open>build_tree\<close> follow the source's \<^verbatim>\<open>if path.is_file()\<close> and
  \<^verbatim>\<open>elif path.is_dir()\<close>: an exception of \<^verbatim>\<open>is_file()\<close> leaves \<open>build_tree\<close>, and an object
  that is neither file nor directory gives nothing.
\<close>

lemma build_tree_follows_is_file:
  assumes "prefix (parent root_path) path"
  shows "is_file obj = Inl e \<Longrightarrow> build_tree path root_path obj = Inl e"
    and "is_file obj = Inr False \<Longrightarrow> is_dir obj = Inr False \<Longrightarrow>
      build_tree path root_path obj = Inr None"
  using assms by (cases obj; simp add: relative_to_prefix)+

lemma build_tree_stat_denied:
  assumes "prefix (parent root_path) path" and "\<not> should_exclude_dir (path_name path)"
    and "StatDenied \<in> snd ` set es"
  shows "build_tree path root_path (Directory es) = Inl OSError"
  using assms by (simp add: relative_to_prefix Let_def)

lemma main_raises:
  "build_tree root_path root_path obj = Inl e \<Longrightarrow> main now name_arg root_path obj = Inl e"
  by (simp add: main_def Let_def)

text \<open>
  C6. Fails on the code for a \<^verbatim>\<open>stat()\<close> failure met by \<^verbatim>\<open>is_file()\<close>. The project
  \<open>/home/proj\<close> holds \<open>main.py\<close> and an entry \<open>x.py\<close> whose \<^verbatim>\<open>stat()\<close> is denied:
  \<^verbatim>\<open>is_file()\<close> raises on it, so does \<open>build_tree\<close> on the entry and on the project, and
  \<open>main\<close> ends with the exception instead of status 0. With the same \<open>x.py\<close> failing only
  in the \<^verbatim>\<open>stat()\<close> for the size and in the read, the tree is emitted, and the node of
  \<open>x.py\<close> has size 0 and 0 lines.
\<close>

theorem uncaught_stat_failure_aborts_scan:
  "is_file StatDenied = Inl OSError \<and>
   build_tree [''home'', ''proj'', ''x.py''] [''home'', ''proj''] StatDenied = Inl OSError \<and>
   build_tree [''home'', ''proj''] [''home'', ''proj'']
     (Directory [(''main.py'', RegFile (Some 30) (ReadOk ''x'')), (''x.py'', StatDenied)]) =
     Inl OSError \<and>
   main ''2026-01-01T00:00:00'' None [''home'', ''proj'']
     (Directory [(''main.py'', RegFile (Some 30) (ReadOk ''x'')), (''x.py'', StatDenied)]) =
     Inl OSError \<and>
   build_tree [''home'', ''proj''] [''home'', ''proj'']
     (Directory [(''main.py'', RegFile (Some 30) (ReadOk ''x'')),
        (''x.py'', RegFile None ReadFails)]) =
     Inr (Some (DirNode ''proj'' ''proj''
       [FileNode ''main.py'' ''proj/main.py'' 30 ''.py'' 0x1F40D (Some 1),
        FileNode ''x.py'' ''proj/x.py'' 0 ''.py'' 0x1F40D (Some 0)]))"
proof -
  have p: "prefix (parent [''home'', ''proj'']) [''home'', ''proj'']"
    by (simp add: parent_def)
  have n: "\<not> should_exclude_dir (path_name [''home'', ''proj''])"
    by (simp add: eval_defs)
  have b: "build_tree [''home'', ''proj''] [''home'', ''proj'']
     (Directory [(''main.py'', RegFile (Some 30) (ReadOk ''x'')), (''x.py'', StatDenied)]) =
     Inl OSError"
    by (rule build_tree_stat_denied [OF p n]) simp
  have ok: "build_tree [''home'', ''proj''] [''home'', ''proj'']
     (Directory [(''main.py'', RegFile (Some 30) (ReadOk ''x'')),
        (''x.py'', RegFile None ReadFails)]) =
     Inr (Some (DirNode ''proj'' ''proj''
       [FileNode ''main.py'' ''proj/main.py'' 30 ''.py'' 0x1F40D (Some 1),
        FileNode ''x.py'' ''proj/x.py'' 0 ''.py'' 0x1F40D (Some 0)]))"
    by (simp add: eval_defs)
  have e: "build_tree [''home'', ''proj'', ''x.py''] [''home'', ''proj''] StatDenied = Inl OSError"
    by (simp add: relative_to_def parent_def)
  from b e ok main_raises [OF b] show ?thesis
    by simp
qed

subsection \<open>Extensions in any letter case\<close>




subsection \<open>Enumeration order\<close>

lemma same_content_is_file: "same_content obj obj' \<Longrightarrow> is_file obj = is_file obj'"
  by (induction rule: same_content.induct) simp_all

lemma insort_key_list_all2:
  assumes "list_all2 R xs ys" and "R a b" and "\<And>x y. R x y \<Longrightarrow> k x = k y"
  shows "list_all2 R (insort_key k a xs) (insort_key k b ys)"
  using assms(1)
proof (induction rule: list_all2_induct)
  case Nil
  show ?case by (simp add: assms(2))
next
  case (Cons x xs y ys)
  from assms(3) [OF assms(2)] assms(3) [OF Cons(1)] Cons assms(2) show ?case
    by simp
qed

lemma sort_key_list_all2:
  assumes "list_all2 R xs ys" and "\<And>x y. R x y \<Longrightarrow> k x = k y"
  shows "list_all2 R (sort_key k xs) (sort_key k ys)"
  using assms(1)
  by (induction rule: list_all2_induct) (simp_all add: insort_key_list_all2 assms(2))

lemma list_all2_map_eq:
  "list_all2 (\<lambda>x y. f x = g y) xs ys \<Longrightarrow> map f xs = map g ys"
  by (induction rule: list_all2_induct) simp_all

lemma list_all2_left_member:
  "list_all2 R xs ys \<Longrightarrow> list_all2 (\<lambda>x y. x \<in> set xs \<and> R x y) xs ys"
  by (induction rule: list_all2_induct) (auto elim: list_all2_mono)

lemma is_StatDenied: "obj = StatDenied \<longleftrightarrow> is_file obj = Inl OSError"
  by (cases obj) simp_all

lemma list_all2_ex_iff:
  "list_all2 R xs ys \<Longrightarrow> (\<And>x y. R x y \<Longrightarrow> p x = q y) \<Longrightarrow>
     (\<exists>x\<in>set xs. p x) = (\<exists>y\<in>set ys. q y)"
  by (induction rule: list_all2_induct) simp_all

lemma same_content_stat_denied:
  assumes "list_all2 (\<lambda>a b. same_content (snd a) (snd b)) es ds" and "mset ds = mset es'"
  shows "StatDenied \<in> snd ` set es' \<longleftrightarrow> StatDenied \<in> snd ` set es"
proof -
  from assms(1) have "(\<exists>a\<in>set es. snd a = StatDenied) = (\<exists>b\<in>set ds. snd b = StatDenied)"
    by (rule list_all2_ex_iff) (simp add: is_StatDenied same_content_is_file)
  moreover from assms(2) have "set ds = set es'"
    by (rule mset_eq_setD)
  ultimately show ?thesis
    by (force simp: image_iff)
qed

lemma distinct_plain_keys:
  assumes "distinct (map entry_key es)" and "StatDenied \<notin> snd ` set es"
  shows "distinct (map plain_key es)"
proof -
  have "entry_key p = Inr (plain_key p)" if "p \<in> set es" for p
  proof (rule entry_key_plain)
    from that assms(2) show "snd p \<noteq> StatDenied"
      by force
  qed
  then have "map entry_key es = map Inr (map plain_key es)"
    by simp
  with assms(1) have "distinct (map (Inr :: bool \<times> string \<Rightarrow> error + bool \<times> string)
      (map plain_key es))"
    by simp
  then show ?thesis
    by (simp only: distinct_map [of Inr])
qed

lemma build_tree_Directory_eqI:
  assumes "map (\<lambda>child. build_tree (path @ [fst child]) root_path (snd child))
       (sort_key plain_key es') =
     map (\<lambda>child. build_tree (path @ [fst child]) root_path (snd child))
       (sort_key plain_key es)"
    and "StatDenied \<in> snd ` set es' \<longleftrightarrow> StatDenied \<in> snd ` set es"
  shows "build_tree path root_path (Directory es') = build_tree path root_path (Directory es)"
  by (simp add: assms Let_def cong: sum.case_cong if_cong)

lemma build_tree_same_content:
  "same_content obj obj' \<Longrightarrow> distinct_keys obj \<Longrightarrow>
     build_tree path root_path obj' = build_tree path root_path obj"
proof (induction arbitrary: path rule: same_content.induct)
  case (same obj)
  show ?case by simp
next
  case (listing es ds es')
  let ?R = "\<lambda>a b. fst a = fst b \<and> same_content (snd a) (snd b) \<and>
     (distinct_keys (snd a) \<longrightarrow>
        (\<forall>p. build_tree p root_path (snd b) = build_tree p root_path (snd a)))"
  let ?f = "\<lambda>child. build_tree (path @ [fst child]) root_path (snd child)"
  from listing.IH have rel: "list_all2 ?R es ds"
    by (rule list_all2_mono) auto
  from rel have "list_all2 (\<lambda>a b. same_content (snd a) (snd b)) es ds"
    by (rule list_all2_mono) simp
  then have stat': "StatDenied \<in> snd ` set es' \<longleftrightarrow> StatDenied \<in> snd ` set es"
    using listing.hyps by (rule same_content_stat_denied)
  show ?case
  proof (cases "StatDenied \<in> snd ` set es")
    case True
    with stat' show ?thesis
      by (simp add: Let_def cong: sum.case_cong if_cong)
  next
    case False
    have key: "plain_key a = plain_key b" if "?R a b" for a b
      using that same_content_is_file [of "snd a" "snd b"] by (simp add: plain_key_def)
    from rel have "list_all2 (\<lambda>a b. plain_key a = plain_key b) es ds"
      by (rule list_all2_mono) (rule key)
    then have "map plain_key es = map plain_key ds"
      by (rule list_all2_map_eq)
    moreover from listing.prems False have "distinct (map plain_key es)"
      by (simp add: distinct_plain_keys)
    ultimately have "distinct (map plain_key ds)"
      by simp
    moreover have "mset (map plain_key es') = mset (map plain_key ds)"
      by (simp add: listing.hyps)
    ultimately have "distinct (map plain_key es')"
      by (metis mset_eq_imp_distinct_iff)
    then have "inj_on plain_key (set es')"
      by (simp add: distinct_map)
    then have sorted': "sort_key plain_key es' = sort_key plain_key ds"
      by (intro sort_key_inj_key_eq) (simp_all add: listing.hyps)
    from rel have "list_all2 (\<lambda>a b. a \<in> set es \<and> ?R a b) es ds"
      by (rule list_all2_left_member)
    then have "list_all2 (\<lambda>a b. plain_key a = plain_key b \<and> ?f a = ?f b) es ds"
    proof (rule list_all2_mono)
      fix a b assume ab: "a \<in> set es \<and> ?R a b"
      with listing.prems have "distinct_keys (snd a)"
        by (simp add: list_all_iff)
      with ab key [of a b] show "plain_key a = plain_key b \<and> ?f a = ?f b"
        by simp
    qed
    then have "list_all2 (\<lambda>a b. plain_key a = plain_key b \<and> ?f a = ?f b)
        (sort_key plain_key es) (sort_key plain_key ds)"
      by (rule sort_key_list_all2) simp
    then have "list_all2 (\<lambda>a b. ?f a = ?f b) (sort_key plain_key es) (sort_key plain_key ds)"
      by (rule list_all2_mono) simp
    then have "map ?f (sort_key plain_key es) = map ?f (sort_key plain_key ds)"
      by (rule list_all2_map_eq)
    then show ?thesis
      by (intro build_tree_Directory_eqI) (simp_all add: sorted' stat')
  qed
qed

lemma collect_Inr_kept:
  "collect rs = Inr cs \<Longrightarrow> cs = kept_nodes rs \<and> (\<forall>r\<in>set rs. \<exists>c. r = Inr c)"
  by (induction rs arbitrary: cs) (auto simp: kept_nodes_def split: sum.splits option.splits)

lemma collect_kept: "\<forall>r\<in>set rs. \<exists>c. r = Inr c \<Longrightarrow> collect rs = Inr (kept_nodes rs)"
  by (induction rs) (auto simp: kept_nodes_def split: option.splits)

lemma collect_Inl: "collect rs = Inl e \<Longrightarrow> Inl e \<in> set rs"
  by (induction rs) (auto split: sum.splits)

lemma mset_kept_nodes:
  "mset (kept_nodes rs) =
     (\<Sum>r\<in>#mset rs. mset (case r of Inr (Some n) \<Rightarrow> [n] | _ \<Rightarrow> []))"
  by (induction rs) (simp_all add: kept_nodes_def)

lemma mset_kept_nodes_cong: "mset rs = mset rs' \<Longrightarrow> mset (kept_nodes rs) = mset (kept_nodes rs')"
  by (simp add: mset_kept_nodes)

lemma build_tree_error_OSError:
  "prefix (parent root_path) path \<Longrightarrow> build_tree path root_path obj = Inl e \<Longrightarrow> e = OSError"
proof (induction path root_path obj rule: build_tree_cases_induct)
  case (1 path root_path st rd)
  then show ?case
    by (simp add: relative_to_prefix Let_def split: if_splits)
next
  case (2 path root_path es)
  note rel = relative_to_prefix [OF "2.prems"(1)]
  let ?f = "\<lambda>child. build_tree (path @ [fst child]) root_path (snd child)"
  show ?case
  proof (cases "StatDenied \<in> snd ` set es")
    case True
    with "2.prems"(2) show ?thesis
      by (simp add: rel Let_def split: if_splits)
  next
    case False
    with "2.prems"(2) have ne: "\<not> should_exclude_dir (path_name path)"
      and "collect (map ?f (sort_key plain_key es)) = Inl e"
      by (auto simp: rel Let_def split: if_splits sum.splits)
    then have "Inl e \<in> set (map ?f (sort_key plain_key es))"
      by (intro collect_Inl)
    then obtain child where "child \<in> set (sort_key plain_key es)" "?f child = Inl e"
      by auto
    then show ?thesis
      using "2.IH" [OF refl rel ne _ prefix_snoc [OF "2.prems"(1)]] by blast
  qed
next
  case (3 path root_path)
  then show ?case
    by (simp add: relative_to_prefix Let_def split: if_splits)
next
  case (4 path root_path)
  then show ?case
    by (simp add: relative_to_prefix)
next
  case (5 path root_path)
  then show ?case
    by (simp add: relative_to_prefix)
qed

lemma same_result_refl: "same_result r r"
proof (cases r)
  case (Inr c)
  then show ?thesis
    by (cases c) (simp_all add: reordered.same)
qed simp

lemma collect_same_result:
  "list_all2 same_result rs rs' \<Longrightarrow>
     (case collect rs of
        Inl e \<Rightarrow> collect rs' = Inl e
      | Inr cs \<Rightarrow> \<exists>cs'. collect rs' = Inr cs' \<and> list_all2 reordered cs cs')"
proof (induction rule: list_all2_induct)
  case Nil
  show ?case by simp
next
  case (Cons r rs r' rs')
  show ?case
  proof (cases r)
    case (Inl e)
    with Cons(1) show ?thesis by simp
  next
    case (Inr c)
    show ?thesis
    proof (cases c)
      case None
      with Inr Cons(1) have "r' = Inr None" by simp
      with None Inr Cons.IH show ?thesis
        by (auto split: sum.splits)
    next
      case (Some t)
      with Inr Cons(1) obtain t' where "r' = Inr (Some t')" "reordered t t'"
        by (cases "(Inr (Some t) :: error + node option, r')" rule: same_result.cases) simp_all
      with Some Inr Cons.IH show ?thesis
        by (auto split: sum.splits)
    qed
  qed
qed

lemma same_result_Some:
  "same_result (Inr (Some t)) r \<Longrightarrow> \<exists>t'. r = Inr (Some t') \<and> reordered t t'"
  by (cases "(Inr (Some t) :: error + node option, r)" rule: same_result.cases) simp_all

lemma build_tree_reordered:
  "same_content obj obj' \<Longrightarrow>
     same_result (build_tree path root_path obj) (build_tree path root_path obj')"
proof (induction arbitrary: path rule: same_content.induct)
  case (same obj)
  show ?case by (rule same_result_refl)
next
  case (listing es ds es')
  let ?R = "\<lambda>a b. fst a = fst b \<and> same_content (snd a) (snd b) \<and>
     (\<forall>p. same_result (build_tree p root_path (snd a)) (build_tree p root_path (snd b)))"
  let ?f = "\<lambda>child. build_tree (path @ [fst child]) root_path (snd child)"
  let ?rs = "map ?f (sort_key plain_key es)"
  let ?rd = "map ?f (sort_key plain_key ds)"
  let ?rs' = "map ?f (sort_key plain_key es')"
  show ?case
  proof (cases "relative_to path (parent root_path)")
    case (Inl e)
    then show ?thesis by (simp add: Let_def)
  next
    case (Inr rel)
    then have pre: "prefix (parent root_path) path"
      by (auto dest: relative_to_Inr)
    show ?thesis
    proof (cases "should_exclude_dir (path_name path)")
      case True
      then show ?thesis by (simp add: Let_def Inr)
    next
      case False
      from listing.IH have rel2: "list_all2 ?R es ds"
        by (rule list_all2_mono) auto
      from rel2 have "list_all2 (\<lambda>a b. same_content (snd a) (snd b)) es ds"
        by (rule list_all2_mono) simp
      then have stat': "StatDenied \<in> snd ` set es' \<longleftrightarrow> StatDenied \<in> snd ` set es"
        using listing.hyps by (rule same_content_stat_denied)
      show ?thesis
      proof (cases "StatDenied \<in> snd ` set es")
        case stat: True
        with stat' show ?thesis
          by (simp add: Let_def Inr False)
      next
        case nostat: False
        have key: "plain_key a = plain_key b" if "?R a b" for a b
          using that same_content_is_file [of "snd a" "snd b"] by (simp add: plain_key_def)
        from rel2 have "list_all2 ?R (sort_key plain_key es) (sort_key plain_key ds)"
          by (rule sort_key_list_all2) (rule key)
        then have "list_all2 (\<lambda>a b. same_result (?f a) (?f b))
            (sort_key plain_key es) (sort_key plain_key ds)"
          by (rule list_all2_mono) auto
        then have "list_all2 same_result ?rs ?rd"
          by (simp add: list_all2_map1 list_all2_map2)
        note coll = collect_same_result [OF this]
        have perm: "mset ?rd = mset ?rs'"
          by (simp add: listing.hyps)
        then have sets: "set ?rd = set ?rs'"
          by (rule mset_eq_setD)
        have oserr: "e = OSError" if "Inl e \<in> set ?rs'" for e
        proof -
          from that obtain child where "?f child = Inl e"
            by auto
          with prefix_snoc [OF pre] show ?thesis
            by (auto dest: build_tree_error_OSError [rotated])
        qed
        show ?thesis
        proof (cases "collect ?rs")
          case (Inl e)
          with coll have d: "collect ?rd = Inl e" by simp
          then have "Inl e \<in> set ?rs'"
            unfolding sets [symmetric] by (rule collect_Inl)
          then have e: "e = OSError"
            by (rule oserr)
          have "\<exists>e'. collect ?rs' = Inl e'"
          proof (cases "collect ?rs'")
            case (Inr cs')
            from collect_Inr_kept [OF this] \<open>Inl e \<in> set ?rs'\<close> show ?thesis
              by blast
          qed simp
          then obtain e' where e': "collect ?rs' = Inl e'"
            by blast
          then have "Inl e' \<in> set ?rs'"
            by (rule collect_Inl)
          then have "e' = OSError"
            by (rule oserr)
          with e e' Inl show ?thesis
            by (simp add: Let_def Inr False nostat stat')
        next
          case r: (Inr cs)
          with coll obtain cd where d: "collect ?rd = Inr cd" and cs: "list_all2 reordered cs cd"
            by auto
          from collect_Inr_kept [OF d] have cd: "cd = kept_nodes ?rd"
            and "\<forall>r\<in>set ?rs'. \<exists>c. r = Inr c"
            unfolding sets by simp_all
          then have c': "collect ?rs' = Inr (kept_nodes ?rs')"
            by (intro collect_kept)
          have m: "mset cd = mset (kept_nodes ?rs')"
            unfolding cd by (rule mset_kept_nodes_cong) (rule perm)
          show ?thesis
          proof (cases "cs = []")
            case True
            with cs have "cd = []" by simp
            with m have "kept_nodes ?rs' = []" by simp
            with True r c' show ?thesis
              by (simp add: Let_def Inr False nostat stat')
          next
            case ne: False
            with cs have "cd \<noteq> []" by auto
            with m have "kept_nodes ?rs' \<noteq> []" by auto
            moreover have "reordered (DirNode (path_name path) (path_str rel) cs)
                (DirNode (path_name path) (path_str rel) (kept_nodes ?rs'))"
              using cs m by (rule reordered.children)
            ultimately show ?thesis
              using ne r c' by (simp add: Let_def Inr False nostat stat')
          qed
        qed
      qed
    qed
  qed
qed

lemma main_same_tree:
  "build_tree root_path root_path obj' = build_tree root_path root_path obj \<Longrightarrow>
     main now' name_arg root_path obj' = at_time now' (main now name_arg root_path obj)"
  by (simp add: main_def at_time_def Let_def split: sum.splits option.splits)

text \<open>
  C8 as stated fails: a directory with the files \<open>A.py\<close> and \<open>a.py\<close>, enumerated in the two
  orders, gives two different trees, since the sort keeps the enumeration order of entries
  with equal keys.
\<close>

theorem enumeration_order_counterexample:
  "same_content
     (Directory [(''A.py'', RegFile (Some 1) (ReadOk [])), (''a.py'', RegFile (Some 2) (ReadOk []))])
     (Directory [(''a.py'', RegFile (Some 2) (ReadOk [])), (''A.py'', RegFile (Some 1) (ReadOk []))]) \<and>
   build_tree [''proj''] [''proj'']
     (Directory [(''A.py'', RegFile (Some 1) (ReadOk [])), (''a.py'', RegFile (Some 2) (ReadOk []))]) =
     Inr (Some (DirNode ''proj'' ''proj''
       [FileNode ''A.py'' ''proj/A.py'' 1 ''.py'' 0x1F40D (Some 0),
        FileNode ''a.py'' ''proj/a.py'' 2 ''.py'' 0x1F40D (Some 0)])) \<and>
   build_tree [''proj''] [''proj'']
     (Directory [(''a.py'', RegFile (Some 2) (ReadOk [])), (''A.py'', RegFile (Some 1) (ReadOk []))]) =
     Inr (Some (DirNode ''proj'' ''proj''
       [FileNode ''a.py'' ''proj/a.py'' 2 ''.py'' 0x1F40D (Some 0),
        FileNode ''A.py'' ''proj/A.py'' 1 ''.py'' 0x1F40D (Some 0)])) \<and>
   build_tree [''proj''] [''proj'']
     (Directory [(''a.py'', RegFile (Some 2) (ReadOk [])), (''A.py'', RegFile (Some 1) (ReadOk []))]) \<noteq>
   build_tree [''proj''] [''proj'']
     (Directory [(''A.py'', RegFile (Some 1) (ReadOk [])), (''a.py'', RegFile (Some 2) (ReadOk []))])"
proof -
  have "same_content
     (Directory [(''A.py'', RegFile (Some 1) (ReadOk [])), (''a.py'', RegFile (Some 2) (ReadOk []))])
     (Directory [(''a.py'', RegFile (Some 2) (ReadOk [])), (''A.py'', RegFile (Some 1) (ReadOk []))])"
    by (rule same_content.listing [where ds =
          "[(''A.py'', RegFile (Some 1) (ReadOk [])), (''a.py'', RegFile (Some 2) (ReadOk []))]"])
      (simp_all add: same_content.same)
  then show ?thesis
    by (simp add: eval_defs)
qed

text \<open>
  C8, as amended. Two scans of the same directory tree whose listings are enumerated in
  different orders give the same tree and the same totals, and reports that differ in the
  generation time only, when no directory has two entries with the same sort key (two
  files, or two entries that are not files, with names equal up to letter case). Without
  that condition both scans emit a tree or neither does, the two trees are equal up to the
  order of children, and the totals are equal.
\<close>

theorem rescan_same_tree_and_totals:
  assumes "same_content obj obj'"
  shows "(distinct_keys obj \<longrightarrow>
       build_tree path root_path obj' = build_tree path root_path obj \<and>
       main now' name_arg root_path obj' = at_time now' (main now name_arg root_path obj)) \<and>
    (\<forall>t. build_tree path root_path obj = Inr (Some t) \<longrightarrow>
       (\<exists>t'. build_tree path root_path obj' = Inr (Some t') \<and> reordered t t' \<and>
          calculate_totals t' = calculate_totals t))"
proof -
  have "\<exists>t'. build_tree path root_path obj' = Inr (Some t') \<and> reordered t t' \<and>
          calculate_totals t' = calculate_totals t"
    if "build_tree path root_path obj = Inr (Some t)" for t
  proof -
    from build_tree_reordered [OF assms, of path root_path] that
    obtain t' where "build_tree path root_path obj' = Inr (Some t')" "reordered t t'"
      by (auto dest: same_result_Some)
    with reordered_tree_totals [OF this(2)] show ?thesis
      by (simp add: calculate_totals_eq)
  qed
  with build_tree_same_content [OF assms] main_same_tree show ?thesis
    by blast
qed

lemma same_content_ex_fs: "same_content ex_fs ex_fs'"
proof -
  have src: "same_content
      (Directory
         [(''main.py'', RegFile (Some 30) (ReadOk [CHR ''a'', CHR 0x0A, CHR ''b'', CHR 0x0A])),
          (''Lib'', Directory [(''util.py'', RegFile None ReadFails)])])
      (Directory
         [(''Lib'', Directory [(''util.py'', RegFile None ReadFails)]),
          (''main.py'', RegFile (Some 30) (ReadOk [CHR ''a'', CHR 0x0A, CHR ''b'', CHR 0x0A]))])"
    by (rule same_content.listing [where ds =
          "[(''main.py'', RegFile (Some 30) (ReadOk [CHR ''a'', CHR 0x0A, CHR ''b'', CHR 0x0A])),
            (''Lib'', Directory [(''util.py'', RegFile None ReadFails)])]"])
      (simp_all add: same_content.same)
  show ?thesis
    unfolding ex_fs_def ex_fs'_def
    by (rule same_content.listing [where ds =
          "[(''README.md'', RegFile (Some 12) (ReadOk ''hello'')),
            (''logo.png'', RegFile (Some 100) (ReadOk [])),
            (''build'', Directory [(''out.o'', RegFile (Some 5) (ReadOk ''x''))]),
            (''.git'', Directory [(''config'', RegFile (Some 5) (ReadOk ''x''))]),
            (''empty'', Directory []),
            (''src'', Directory
               [(''Lib'', Directory [(''util.py'', RegFile None ReadFails)]),
                (''main.py'', RegFile (Some 30) (ReadOk [CHR ''a'', CHR 0x0A, CHR ''b'', CHR 0x0A]))])]"])
      (simp_all add: same_content.same src)
qed

theorem rescan_same_tree_and_totals_witness:
  "same_content ex_fs ex_fs' \<and> distinct_keys ex_fs \<and>
   build_tree [''home'', ''proj''] [''home'', ''proj''] ex_fs = Inr (Some ex_out) \<and>
   build_tree [''home'', ''proj''] [''home'', ''proj''] ex_fs' = Inr (Some ex_out) \<and>
   main ''2026-01-02T00:00:00'' None [''home'', ''proj''] ex_fs' =
     at_time ''2026-01-02T00:00:00'' (main ''2026-01-01T00:00:00'' None [''home'', ''proj''] ex_fs)"
proof -
  have d: "distinct_keys ex_fs"
    by (simp add: ex_fs_def entry_key_def lower_def lower_char_def)
  from rescan_same_tree_and_totals [OF same_content_ex_fs,
      of "[''home'', ''proj'']" "[''home'', ''proj'']" "''2026-01-02T00:00:00''" None
        "''2026-01-01T00:00:00''"]
    same_content_ex_fs d build_tree_ex_fs
  show ?thesis
    by simp
qed

end
